theory Spec2Isabelle
  imports Complex_Main
begin

section \<open>Strings and the Unicode tables\<close>

text \<open>
  A Python \<open>str\<close> is a sequence of Unicode code points and \<open>len\<close> counts code points.
  A code point is a natural number, a string a list of them. \<open>lit\<close> turns an ASCII
  literal into such a string.
\<close>

type_synonym codepoint = nat
type_synonym str = "codepoint list"

definition lit :: "string \<Rightarrow> str" where
  "lit s = map of_char s"

text \<open>
  \<open>str.strip\<close>, \<open>str.lower\<close> and \<open>str.isalpha\<close> read the Unicode database of the
  interpreter, which is no part of the repository. It is a parameter of the model: which
  code points are whitespace, which are alphabetic, and the lower-casing of a string
  (a function of the whole string, since Python's is context sensitive and may change the
  length).
\<close>

record unicode_db =
  ch_isspace :: "codepoint \<Rightarrow> bool"
  ch_isalpha :: "codepoint \<Rightarrow> bool"
  str_lower :: "str \<Rightarrow> str"

text \<open>\<open>s.strip()\<close>: whitespace removed at both ends.\<close>

definition strip :: "unicode_db \<Rightarrow> str \<Rightarrow> str" where
  "strip db s = rev (dropWhile (ch_isspace db) (rev (dropWhile (ch_isspace db) s)))"

text \<open>\<open>s.isalpha()\<close>: at least one character, and every character alphabetic.\<close>

definition str_isalpha :: "unicode_db \<Rightarrow> str \<Rightarrow> bool" where
  "str_isalpha db w = (w \<noteq> [] \<and> list_all (ch_isalpha db) w)"

text \<open>
  The tables of CPython on the ASCII range (code points below 128): whitespace is
  \<open>0x09..0x0D\<close>, \<open>0x1C..0x1F\<close> and the space, the letters are \<open>A..Z\<close> and \<open>a..z\<close>,
  and lower-casing adds 32 to a capital. Above 127 nothing is whitespace or a letter
  here and lower-casing changes nothing, so this instance is Python's behaviour on
  ASCII text only; the examples below use it on ASCII text.
\<close>

definition ascii_db :: unicode_db where
  "ascii_db = \<lparr>
     ch_isspace = (\<lambda>c. (9 \<le> c \<and> c \<le> 13) \<or> (28 \<le> c \<and> c \<le> 32)),
     ch_isalpha = (\<lambda>c. (65 \<le> c \<and> c \<le> 90) \<or> (97 \<le> c \<and> c \<le> 122)),
     str_lower = map (\<lambda>c. if 65 \<le> c \<and> c \<le> 90 then c + 32 else c) \<rparr>"

section \<open>Effects: the trace of a run and how it ends\<close>

text \<open>
  A JSON value as \<open>response.json()\<close> delivers it. The program only reads the truth value
  of such a value (\<open>if result.get("available")\<close>) and passes it on.
\<close>

datatype pyfloat = Finite rat | PosInf | NegInf | NaN

datatype json =
    JNull
  | JBool bool
  | JInt int
  | JFloat pyfloat
  | JStr str
  | JArr "json list"
  | JObj "(str \<times> json) list"

text \<open>Python's truth value: \<open>None\<close>, \<open>False\<close>, zero and the empty containers are false.\<close>

fun truthy :: "json \<Rightarrow> bool" where
  "truthy JNull = False"
| "truthy (JBool b) = b"
| "truthy (JInt i) = (i \<noteq> 0)"
| "truthy (JFloat f) = (f \<noteq> Finite 0)"
| "truthy (JStr s) = (s \<noteq> [])"
| "truthy (JArr xs) = (xs \<noteq> [])"
| "truthy (JObj kvs) = (kvs \<noteq> [])"

text \<open>
  A dictionary with string keys as an association list, in insertion order and
  with each key once; \<open>d.get(k)\<close> is \<open>None\<close> (here \<open>JNull\<close>) for a missing key.
\<close>

type_synonym result = "(str \<times> json) list"

definition get :: "result \<Rightarrow> str \<Rightarrow> json" where
  "get d k = (case map_of d k of None \<Rightarrow> JNull | Some v \<Rightarrow> v)"

text \<open>
  Only a dictionary has the method \<open>get\<close>: on any other value \<open>v.get(...)\<close> raises
  \<open>AttributeError\<close>. \<open>as_dict\<close> gives the dictionary, or \<open>None\<close> for that exception.
\<close>

fun as_dict :: "json \<Rightarrow> result option" where
  "as_dict (JObj d) = Some d"
| "as_dict _ = None"

text \<open>
  \<open>for x in v\<close>: a list gives its elements, a dictionary its keys, a string its
  characters; on \<open>None\<close>, a boolean or a number the loop raises \<open>TypeError\<close>
  (here \<open>None\<close>).
\<close>

fun iter :: "json \<Rightarrow> json list option" where
  "iter (JArr xs) = Some xs"
| "iter (JObj d) = Some (map (\<lambda>(k, v). JStr k) d)"
| "iter (JStr s) = Some (map (\<lambda>c. JStr [c]) s)"
| "iter _ = None"

text \<open>The request that \<open>check_batch\<close> posts.\<close>

record request =
  post_url :: str
  post_headers :: "(str \<times> str) list"
  post_json :: "str list"
  post_params :: "(str \<times> str) list"
  post_timeout :: nat

text \<open>
  What the logger is given. The texts of the messages are abstracted to their kind and
  the values they carry. \<open>logger.debug\<close> is recorded as a call although the configured
  level (INFO) prints nothing for it.
\<close>

datatype level = DEBUG | INFO | ERROR

datatype message =
    ApiRequestFailed str
  | LoadedWords nat
  | DictionaryNotFound str
  | DictionaryReadError str
  | MissingCredentials
  | ResultsSaved str
  | SaveFailed
  | LoadingDictionary str
  | NoWordsFound
  | CheckingTld str
  | Available json
  | Taken json
  | Progress nat nat str
  | Complete nat

text \<open>What \<open>parser.error\<close> is called for.\<close>

datatype usage_error =
    LengthTooSmall
  | MinLengthTooSmall
  | MaxRequiresMin
  | MaxBelowMin
  | LengthOrMinRequired

text \<open>
  The events of a run: a call of the logger, a usage error printed by the argument
  parser, request number \<open>n\<close> posted, a sleep of so many seconds, and a dictionary
  written as JSON to a file.
\<close>

datatype event =
    Log level message
  | ParserError usage_error
  | Post nat request
  | Sleep nat
  | WriteJson str "(str \<times> json list) list"

text \<open>
  A run ends through \<open>sys.exit(n)\<close>, through an exception nobody catches, or by
  returning a value. Every function with effects returns the events it caused and
  how it ended.
\<close>

datatype abort = SystemExit int | Uncaught

type_synonym 'a io = "event list \<times> (abort + 'a)"

section \<open>Constants\<close>

definition GODADDY_API_URL :: str where
  "GODADDY_API_URL = lit ''https://api.ote-godaddy.com/v1/domains/available''"

definition BATCH_SIZE :: nat where
  "BATCH_SIZE = 70"

definition DELAY_SECONDS :: nat where
  "DELAY_SECONDS = 4"

definition OUTPUT_FILE :: str where
  "OUTPUT_FILE = lit ''available.json''"

section \<open>The dictionary loader\<close>

text \<open>
  Opening and reading the dictionary either fails (the file is missing; another
  \<open>IOError\<close>, with its text; the bytes are not UTF-8, which no handler catches) or
  yields the lines that iterating over the file gives, each with its line end.
\<close>

datatype file_read = FileNotFoundError | IOError str | UnicodeDecodeError | Lines "str list"

text \<open>Line 58: the stripped, lower-cased non-blank lines.\<close>

definition read_words :: "unicode_db \<Rightarrow> str list \<Rightarrow> str list" where
  "read_words db ls = map (\<lambda>line. str_lower db (strip db line)) (filter (\<lambda>line. strip db line \<noteq> []) ls)"

text \<open>Lines 61 to 67: the filter by length; the arguments are Python integers or \<open>None\<close>.\<close>

definition filter_by_length :: "int option \<Rightarrow> int option \<Rightarrow> int option \<Rightarrow> str list \<Rightarrow> str list" where
  "filter_by_length len min_length max_length words =
     (case len of
        Some l \<Rightarrow> filter (\<lambda>w. int (length w) = l) words
      | None \<Rightarrow>
          (let words1 = (case min_length of
                           Some mn \<Rightarrow> filter (\<lambda>w. int (length w) \<ge> mn) words
                         | None \<Rightarrow> words);
               words2 = (case max_length of
                           Some mx \<Rightarrow> filter (\<lambda>w. int (length w) \<le> mx) words1
                         | None \<Rightarrow> words1)
           in words2))"

text \<open>Lines 58 to 70 together: what the loader computes from the lines of the file.\<close>

definition filter_words :: "unicode_db \<Rightarrow> str list \<Rightarrow> int option \<Rightarrow> int option \<Rightarrow> int option \<Rightarrow> str list" where
  "filter_words db ls len min_length max_length =
     filter (str_isalpha db) (filter_by_length len min_length max_length (read_words db ls))"

definition load_dictionary_words ::
  "unicode_db \<Rightarrow> (str \<Rightarrow> file_read) \<Rightarrow> str \<Rightarrow> int option \<Rightarrow> int option \<Rightarrow> int option \<Rightarrow> str list io" where
  "load_dictionary_words db fs dict_path len min_length max_length =
     (case fs dict_path of
        Lines ls \<Rightarrow>
          (let words = filter_words db ls len min_length max_length
           in ([Log INFO (LoadedWords (length words))], Inr words))
      | FileNotFoundError \<Rightarrow> ([Log ERROR (DictionaryNotFound dict_path)], Inl (SystemExit 1))
      | IOError e \<Rightarrow> ([Log ERROR (DictionaryReadError e)], Inl (SystemExit 1))
      | UnicodeDecodeError \<Rightarrow> ([], Inl Uncaught))"

section \<open>Arguments and credentials\<close>

text \<open>
  The namespace that \<open>parser.parse_args()\<close> returns: the three optional integers, the
  text of \<open>--tlds\<close> and the path of \<open>--dict\<close> (argparse has put the defaults in).
\<close>

record namespace =
  ns_length :: "int option"
  ns_min_length :: "int option"
  ns_max_length :: "int option"
  ns_tlds :: str
  ns_dict :: str

text \<open>
  Lines 124 to 141: the checks of \<open>parse_arguments\<close> on the namespace, in the order of
  the source. \<open>parser.error\<close> prints the message and exits with status 2.
\<close>

definition parse_arguments :: "namespace \<Rightarrow> usage_error + namespace" where
  "parse_arguments args =
     (if ns_length args \<noteq> None \<and> the (ns_length args) < 1 then Inl LengthTooSmall
      else if ns_min_length args \<noteq> None \<and> the (ns_min_length args) < 1 then Inl MinLengthTooSmall
      else if ns_max_length args \<noteq> None \<and> ns_min_length args = None then Inl MaxRequiresMin
      else if ns_min_length args \<noteq> None \<and> ns_max_length args \<noteq> None
              \<and> the (ns_max_length args) < the (ns_min_length args) then Inl MaxBelowMin
      else if ns_length args = None \<and> ns_min_length args = None then Inl LengthOrMinRequired
      else Inr args)"

text \<open>\<open>not s\<close> for a value that is a string or \<open>None\<close>.\<close>

fun not_str :: "str option \<Rightarrow> bool" where
  "not_str None = True"
| "not_str (Some s) = (s = [])"

text \<open>
  \<open>load_credentials\<close>; \<open>getenv\<close> is the environment as it is after \<open>load_dotenv()\<close>.
\<close>

definition load_credentials :: "(str \<Rightarrow> str option) \<Rightarrow> (str \<times> str) io" where
  "load_credentials getenv =
     (let api_key = getenv (lit ''GODADDY_API_KEY'');
          api_secret = getenv (lit ''GODADDY_API_SECRET'')
      in if not_str api_key \<or> not_str api_secret
         then ([Log ERROR MissingCredentials], Inl (SystemExit 1))
         else ([], Inr (the api_key, the api_secret)))"

section \<open>The availability client\<close>

record DomainChecker =
  api_key :: str
  api_secret :: str
  headers :: "(str \<times> str) list"

definition DomainChecker_init :: "str \<Rightarrow> str \<Rightarrow> DomainChecker" where
  "DomainChecker_init key secret = \<lparr>
     api_key = key,
     api_secret = secret,
     headers = [(lit ''Authorization'', lit ''sso-key '' @ key @ lit '':'' @ secret),
                (lit ''Content-Type'', lit ''application/json'')] \<rparr>"

text \<open>
  What the network answers to a request. Either the request raises a
  \<open>RequestException\<close> (no connection, the timeout, an HTTP error status that
  \<open>raise_for_status\<close> turns into one, a body that is not JSON), or
  \<open>response.json()\<close> is a JSON value, of any shape.
\<close>

datatype response = RequestException str | Body json

definition request_for :: "DomainChecker \<Rightarrow> str list \<Rightarrow> request" where
  "request_for self domains = \<lparr>
     post_url = GODADDY_API_URL,
     post_headers = headers self,
     post_json = domains,
     post_params = [(lit ''checkType'', lit ''FAST'')],
     post_timeout = 30 \<rparr>"

text \<open>
  \<open>check_batch\<close> as call number \<open>n\<close> of the run: the events it causes, and the value
  it returns or the exception that leaves it. The network may answer the same request
  differently at another call. Only a \<open>RequestException\<close> is caught: \<open>.get\<close> on a body
  that is no dictionary raises \<open>AttributeError\<close>, which leaves the function, and what a
  dictionary holds under \<open>domains\<close> is returned whatever it is.
\<close>

definition check_batch ::
  "(nat \<Rightarrow> request \<Rightarrow> response) \<Rightarrow> DomainChecker \<Rightarrow> nat \<Rightarrow> str list
     \<Rightarrow> event list \<times> (abort + json)" where
  "check_batch net self n domains =
     (case net n (request_for self domains) of
        Body body \<Rightarrow>
          ([Post n (request_for self domains)],
           (case as_dict body of
              None \<Rightarrow> Inl Uncaught
            | Some d \<Rightarrow>
                Inr (case map_of d (lit ''domains'') of None \<Rightarrow> JArr [] | Some v \<Rightarrow> v)))
      | RequestException e \<Rightarrow>
          ([Post n (request_for self domains), Log ERROR (ApiRequestFailed e)], Inr (JArr [])))"

section \<open>The orchestration loop\<close>

text \<open>
  The state of the loop: the dictionary \<open>available_domains\<close> (keys in insertion
  order), the events so far, and the number of requests posted so far.
\<close>

record run_state =
  available_domains :: "(str \<times> json list) list"
  trace :: "event list"
  calls :: nat

text \<open>\<open>d[k] = v\<close>: replaces the value of a key that is there, appends a new key.\<close>

fun setitem :: "'k \<Rightarrow> 'v \<Rightarrow> ('k \<times> 'v) list \<Rightarrow> ('k \<times> 'v) list" where
  "setitem k v [] = [(k, v)]"
| "setitem k v ((k', v') # d) = (if k' = k then (k, v) # d else (k', v') # setitem k v d)"

text \<open>\<open>{tld: [] for tld in tlds}\<close>\<close>

definition empty_lists :: "str list \<Rightarrow> (str \<times> json list) list" where
  "empty_lists tlds = fold (\<lambda>tld d. setitem tld [] d) tlds []"

text \<open>
  A loop whose body may raise: it stops at the first exception, which leaves with the
  state it was raised in.
\<close>

fun for_each :: "('a \<Rightarrow> 's \<Rightarrow> (abort \<times> 's) + 's) \<Rightarrow> 'a list \<Rightarrow> 's \<Rightarrow> (abort \<times> 's) + 's" where
  "for_each body [] s = Inr s"
| "for_each body (x # xs) s =
     (case body x s of Inl e \<Rightarrow> Inl e | Inr s' \<Rightarrow> for_each body xs s')"

text \<open>
  Lines 200 to 205, the body of \<open>for result in results\<close>.
  \<open>result.get\<close> raises \<open>AttributeError\<close> when the result is no dictionary, and
  \<open>available_domains[tld]\<close> raises \<open>KeyError\<close> for a key that is not there.
\<close>

definition record_result :: "str \<Rightarrow> json \<Rightarrow> run_state \<Rightarrow> (abort \<times> run_state) + run_state" where
  "record_result tld result s =
     (case as_dict result of
        None \<Rightarrow> Inl (Uncaught, s)
      | Some r \<Rightarrow>
          (let domain = get r (lit ''domain'')
           in if truthy (get r (lit ''available''))
              then (case map_of (available_domains s) tld of
                      None \<Rightarrow> Inl (Uncaught, s)
                    | Some ds \<Rightarrow>
                        Inr (s\<lparr>available_domains := setitem tld (ds @ [domain]) (available_domains s),
                               trace := trace s @ [Log INFO (Available domain)]\<rparr>))
              else Inr (s\<lparr>trace := trace s @ [Log DEBUG (Taken domain)]\<rparr>)))"

text \<open>\<open>range(i, n, BATCH_SIZE)\<close>\<close>

function batch_range :: "nat \<Rightarrow> nat \<Rightarrow> nat list" where
  "batch_range i n = (if i < n then i # batch_range (i + BATCH_SIZE) n else [])"
  by pat_completeness auto
termination
  by (relation "measure (\<lambda>(i, n). n - i)") (auto simp: BATCH_SIZE_def)

declare batch_range.simps [simp del]

text \<open>\<open>words[i:i + BATCH_SIZE]\<close>\<close>

definition batch_words :: "str list \<Rightarrow> nat \<Rightarrow> str list" where
  "batch_words words i = take BATCH_SIZE (drop i words)"

text \<open>
  Lines 196 to 212, the body of \<open>for i in range(0, len(words), BATCH_SIZE)\<close>. An
  exception that leaves \<open>check_batch\<close>, the \<open>TypeError\<close> of a loop over a value that
  cannot be iterated and an exception of the inner loop all leave the body, after
  the request was posted and before the progress message and the sleep.
\<close>

definition process_batch ::
  "(nat \<Rightarrow> request \<Rightarrow> response) \<Rightarrow> DomainChecker \<Rightarrow> str list \<Rightarrow> str \<Rightarrow> nat \<Rightarrow> run_state
     \<Rightarrow> (abort \<times> run_state) + run_state" where
  "process_batch net checker words tld i s =
     (let batch = map (\<lambda>word. word @ tld) (batch_words words i);
          (events, returned) = check_batch net checker (calls s) batch;
          s1 = s\<lparr>trace := trace s @ events, calls := Suc (calls s)\<rparr>
      in case returned of
           Inl e \<Rightarrow> Inl (e, s1)
         | Inr results \<Rightarrow>
             (case iter results of
                None \<Rightarrow> Inl (Uncaught, s1)
              | Some rs \<Rightarrow>
                  (case for_each (record_result tld) rs s1 of
                     Inl e \<Rightarrow> Inl e
                   | Inr s2 \<Rightarrow>
                       (let processed = min (i + BATCH_SIZE) (length words);
                            s3 = s2\<lparr>trace := trace s2
                                       @ [Log INFO (Progress processed (length words) tld)]\<rparr>
                        in if i + BATCH_SIZE < length words
                           then Inr (s3\<lparr>trace := trace s3 @ [Sleep DELAY_SECONDS]\<rparr>)
                           else Inr s3))))"

text \<open>Lines 193 to 212, the body of \<open>for tld in tlds\<close>.\<close>

definition check_tld ::
  "(nat \<Rightarrow> request \<Rightarrow> response) \<Rightarrow> DomainChecker \<Rightarrow> str list \<Rightarrow> str \<Rightarrow> run_state
     \<Rightarrow> (abort \<times> run_state) + run_state" where
  "check_tld net checker words tld s =
     for_each (process_batch net checker words tld) (batch_range 0 (length words))
       (s\<lparr>trace := trace s @ [Log INFO (CheckingTld tld)]\<rparr>)"

text \<open>Lines 190 to 212: the dictionary is set up and the two loops run.\<close>

definition check_domains ::
  "(nat \<Rightarrow> request \<Rightarrow> response) \<Rightarrow> DomainChecker \<Rightarrow> str list \<Rightarrow> str list
     \<Rightarrow> (abort \<times> run_state) + run_state" where
  "check_domains net checker words tlds =
     for_each (check_tld net checker words) tlds
       \<lparr>available_domains = empty_lists tlds, trace = [], calls = 0\<rparr>"

section \<open>Writing the results and the main function\<close>

text \<open>
  \<open>save_results\<close>: the file is written, or the \<open>IOError\<close> is logged and nothing more
  happens. \<open>writable\<close> tells whether writing to a path succeeds.
\<close>

definition save_results :: "(str \<Rightarrow> bool) \<Rightarrow> (str \<times> json list) list \<Rightarrow> str \<Rightarrow> event list" where
  "save_results writable results output_path =
     (if writable output_path
      then [WriteJson output_path results, Log INFO (ResultsSaved output_path)]
      else [Log ERROR SaveFailed])"

text \<open>\<open>s.split(sep)\<close> for a separator of one character; \<open>acc\<close> is the current piece, reversed.\<close>

fun split_acc :: "codepoint \<Rightarrow> str \<Rightarrow> str \<Rightarrow> str list" where
  "split_acc sep acc [] = [rev acc]"
| "split_acc sep acc (c # cs) =
     (if c = sep then rev acc # split_acc sep [] cs else split_acc sep (c # acc) cs)"

definition str_split :: "str \<Rightarrow> codepoint \<Rightarrow> str list" where
  "str_split s sep = split_acc sep [] s"

text \<open>Line 171: \<open>[tld.strip() for tld in args.tlds.split(",") if tld.strip()]\<close>\<close>

definition parse_tlds :: "unicode_db \<Rightarrow> str \<Rightarrow> str list" where
  "parse_tlds db s = map (strip db) (filter (\<lambda>tld. strip db tld \<noteq> []) (str_split s (of_char CHR '','')))"

text \<open>
  What a run of the program finds around it: the namespace the argument parser
  built, the environment variables, the files that can be read and written, and
  the network.
\<close>

record env =
  argv :: namespace
  environ :: "str \<Rightarrow> str option"
  fs_read :: "str \<Rightarrow> file_read"
  fs_write :: "str \<Rightarrow> bool"
  network :: "nat \<Rightarrow> request \<Rightarrow> response"

definition main :: "unicode_db \<Rightarrow> env \<Rightarrow> unit io" where
  "main db env =
     (case parse_arguments (argv env) of
        Inl err \<Rightarrow> ([ParserError err], Inl (SystemExit 2))
      | Inr args \<Rightarrow>
          (case load_credentials (environ env) of
             (tr_c, Inl e) \<Rightarrow> (tr_c, Inl e)
           | (tr_c, Inr (key, secret)) \<Rightarrow>
               (let tlds = parse_tlds db (ns_tlds args);
                    tr_l = tr_c @ [Log INFO (LoadingDictionary (ns_dict args))]
                in case load_dictionary_words db (fs_read env) (ns_dict args)
                          (ns_length args) (ns_min_length args) (ns_max_length args) of
                     (tr_d, Inl e) \<Rightarrow> (tr_l @ tr_d, Inl e)
                   | (tr_d, Inr words) \<Rightarrow>
                       if words = []
                       then (tr_l @ tr_d @ [Log ERROR NoWordsFound], Inl (SystemExit 1))
                       else (case check_domains (network env) (DomainChecker_init key secret) words tlds of
                               Inl (e, s) \<Rightarrow> (tr_l @ tr_d @ trace s, Inl e)
                             | Inr s \<Rightarrow>
                                 (let total_available =
                                        sum_list (map (\<lambda>(tld, domains). length domains) (available_domains s))
                                  in (tr_l @ tr_d @ trace s
                                        @ save_results (fs_write env) (available_domains s) OUTPUT_FILE
                                        @ [Log INFO (Complete total_available)],
                                      Inr ()))))))"

text \<open>
  A simulated network for the examples: every request is answered with one result
  for each domain asked, and only \<open>abc.com\<close> is reported as available.
\<close>

definition simulated_net :: "nat \<Rightarrow> request \<Rightarrow> response" where
  "simulated_net n req =
     Body (JObj [(lit ''domains'',
                  JArr (map (\<lambda>d. JObj [(lit ''domain'', JStr d),
                                        (lit ''available'', JBool (d = lit ''abc.com''))])
                            (post_json req)))])"

text \<open>
  A run for the examples: exact length 5 is asked for, both credentials are set, and
  the dictionary holds the two words \<open>ab\<close> and \<open>abc\<close>.
\<close>

definition example_env :: env where
  "example_env = \<lparr>
     argv = \<lparr>ns_length = Some 5, ns_min_length = None, ns_max_length = None,
             ns_tlds = lit ''.com'', ns_dict = lit ''words.txt''\<rparr>,
     environ = [lit ''GODADDY_API_KEY'' \<mapsto> lit ''key'', lit ''GODADDY_API_SECRET'' \<mapsto> lit ''secret''],
     fs_read = (\<lambda>_. Lines [lit ''ab'' @ [10], lit ''abc'' @ [10]]),
     fs_write = (\<lambda>_. True),
     network = simulated_net \<rparr>"

text \<open>
  A run for the examples that reaches the network: exact length 3, the suffix
  \<open>.com\<close>, and a dictionary with the two words \<open>abc\<close> and \<open>xyz\<close>.
\<close>

definition abc_env :: env where
  "abc_env = \<lparr>
     argv = \<lparr>ns_length = Some 3, ns_min_length = None, ns_max_length = None,
             ns_tlds = lit ''.com'', ns_dict = lit ''words.txt''\<rparr>,
     environ = [lit ''GODADDY_API_KEY'' \<mapsto> lit ''key'', lit ''GODADDY_API_SECRET'' \<mapsto> lit ''secret''],
     fs_read = (\<lambda>_. Lines [lit ''abc'' @ [10], lit ''xyz'' @ [10]]),
     fs_write = (\<lambda>_. True),
     network = simulated_net \<rparr>"

text \<open>A network that never answers: every request ends in a timeout.\<close>

definition failing_net :: "nat \<Rightarrow> request \<Rightarrow> response" where
  "failing_net n req = RequestException (lit ''timed out'')"

text \<open>A network that answers every request with the JSON array \<open>[]\<close>.\<close>

definition array_net :: "nat \<Rightarrow> request \<Rightarrow> response" where
  "array_net n req = Body (JArr [])"

text \<open>
  The answers on which the loop body raises nothing: a \<open>RequestException\<close>, or a
  dictionary that has no \<open>domains\<close> or has there a value that can be iterated and
  gives dictionaries only.
\<close>

definition well_formed :: "response \<Rightarrow> bool" where
  "well_formed resp =
     (case resp of
        RequestException e \<Rightarrow> True
      | Body body \<Rightarrow>
          (case as_dict body of
             None \<Rightarrow> False
           | Some d \<Rightarrow>
               (case map_of d (lit ''domains'') of
                  None \<Rightarrow> True
                | Some v \<Rightarrow>
                    (case iter v of
                       None \<Rightarrow> False
                     | Some rs \<Rightarrow> list_all (\<lambda>r. as_dict r \<noteq> None) rs))))"

text \<open>The batches of the requests posted, in order.\<close>

fun posted_batches :: "event list \<Rightarrow> str list list" where
  "posted_batches [] = []"
| "posted_batches (Post n req # evs) = post_json req # posted_batches evs"
| "posted_batches (ev # evs) = posted_batches evs"

text \<open>The requests posted and the sleeps, in order: the trace without what is logged.\<close>

definition posts_and_sleeps :: "event list \<Rightarrow> event list" where
  "posts_and_sleeps evs =
     filter (\<lambda>ev. case ev of Post n req \<Rightarrow> True | Sleep d \<Rightarrow> True | _ \<Rightarrow> False) evs"

section \<open>What the loop maintains\<close>

text \<open>
  A domain \<open>d\<close> is reported as available for a suffix when the trace holds a posted
  request whose batch is made of words with that suffix, \<open>check_batch\<close> returned a
  value for it, and iterating over that value gives a dictionary with a true
  \<open>available\<close> entry and \<open>d\<close> as its \<open>domain\<close> entry.
\<close>

definition reported ::
  "(nat \<Rightarrow> request \<Rightarrow> response) \<Rightarrow> DomainChecker \<Rightarrow> str list \<Rightarrow> event list \<Rightarrow> str \<Rightarrow> json \<Rightarrow> bool" where
  "reported net checker words tr tld d =
     (\<exists>n batch results rs r. Post n (request_for checker batch) \<in> set tr
        \<and> set batch \<subseteq> (\<lambda>word. word @ tld) ` set words
        \<and> snd (check_batch net checker n batch) = Inr results
        \<and> iter results = Some rs \<and> JObj r \<in> set rs
        \<and> truthy (get r (lit ''available'')) \<and> d = get r (lit ''domain''))"

text \<open>Every domain in \<open>available_domains\<close> was reported as available for its suffix.\<close>

definition sound ::
  "(nat \<Rightarrow> request \<Rightarrow> response) \<Rightarrow> DomainChecker \<Rightarrow> str list \<Rightarrow> run_state \<Rightarrow> bool" where
  "sound net checker words s =
     (\<forall>tld ds d. (tld, ds) \<in> set (available_domains s) \<longrightarrow> d \<in> set ds \<longrightarrow>
        reported net checker words (trace s) tld d)"

text \<open>The invariant of the loops: the keys stay as they are and the lists stay sound.\<close>

definition loop_inv ::
  "(nat \<Rightarrow> request \<Rightarrow> response) \<Rightarrow> DomainChecker \<Rightarrow> str list \<Rightarrow> str list \<Rightarrow> run_state \<Rightarrow> bool" where
  "loop_inv net checker words keys s =
     (map fst (available_domains s) = keys \<and> sound net checker words s)"

section \<open>Properties of the dictionary loader\<close>

lemma load_dictionary_words_returns:
  "load_dictionary_words db fs p len mn mx = (tr, Inr ws) \<Longrightarrow>
     \<exists>ls. fs p = Lines ls \<and> ws = filter_words db ls len mn mx"
  by (auto simp: load_dictionary_words_def Let_def split: file_read.splits)

lemma ascii_words_example:
  "filter_words ascii_db [lit ''ab'' @ [10], lit ''abc'' @ [10], lit ''abcd'' @ [10]] (Some 3) None None
     = [lit ''abc'']"
  by (simp add: filter_words_def filter_by_length_def read_words_def strip_def
      str_isalpha_def ascii_db_def lit_def)

text \<open>
  C3. Every word that \<open>load_dictionary_words\<close> returns for an exact length \<open>L\<close> has
  length exactly \<open>L\<close>, whatever the file holds and whatever bounds are passed along.
  For a dictionary file with the lines \<open>ab\<close>, \<open>abc\<close>, \<open>abcd\<close> and the exact length 3
  the loader returns exactly the list of the one word \<open>abc\<close>.
\<close>

theorem load_dictionary_words_exact_length:
  "(load_dictionary_words db fs p (Some L) mn mx = (tr, Inr ws) \<longrightarrow>
      (\<forall>w \<in> set ws. int (length w) = L))
   \<and> load_dictionary_words ascii_db
        (\<lambda>_. Lines [lit ''ab'' @ [10], lit ''abc'' @ [10], lit ''abcd'' @ [10]])
        q (Some 3) None None
      = ([Log INFO (LoadedWords 1)], Inr [lit ''abc''])"
proof
  show "load_dictionary_words db fs p (Some L) mn mx = (tr, Inr ws) \<longrightarrow>
      (\<forall>w \<in> set ws. int (length w) = L)"
  proof
    assume "load_dictionary_words db fs p (Some L) mn mx = (tr, Inr ws)"
    then obtain ls where "ws = filter_words db ls (Some L) mn mx"
      using load_dictionary_words_returns by blast
    then show "\<forall>w \<in> set ws. int (length w) = L"
      by (simp add: filter_words_def filter_by_length_def)
  qed
next
  show "load_dictionary_words ascii_db
        (\<lambda>_. Lines [lit ''ab'' @ [10], lit ''abc'' @ [10], lit ''abcd'' @ [10]])
        q (Some 3) None None
      = ([Log INFO (LoadedWords 1)], Inr [lit ''abc''])"
    by (simp add: load_dictionary_words_def ascii_words_example)
qed

theorem load_dictionary_words_exact_length_witness:
  "load_dictionary_words ascii_db
        (\<lambda>_. Lines [lit ''ab'' @ [10], lit ''abc'' @ [10], lit ''abcd'' @ [10]])
        [] (Some 3) (Some 1) (Some 2)
      = ([Log INFO (LoadedWords 1)], Inr [lit ''abc''])
   \<and> int (length (lit ''abc'')) = 3"
proof -
  have run: "load_dictionary_words ascii_db
        (\<lambda>_. Lines [lit ''ab'' @ [10], lit ''abc'' @ [10], lit ''abcd'' @ [10]])
        [] (Some 3) (Some 1) (Some 2)
      = ([Log INFO (LoadedWords 1)], Inr [lit ''abc''])"
    by (simp add: load_dictionary_words_def filter_words_def filter_by_length_def
        read_words_def strip_def str_isalpha_def ascii_db_def lit_def)
  from load_dictionary_words_exact_length
    [of ascii_db "\<lambda>_. Lines [lit ''ab'' @ [10], lit ''abc'' @ [10], lit ''abcd'' @ [10]]"
        "[]" 3 "Some 1" "Some 2" "[Log INFO (LoadedWords 1)]" "[lit ''abc'']"] run
  show ?thesis by simp
qed

text \<open>
  C4. With no exact length, a minimum \<open>mn\<close> and a maximum \<open>mx\<close>, every word that
  \<open>load_dictionary_words\<close> returns has a length between \<open>mn\<close> and \<open>mx\<close>, both included.
\<close>

theorem load_dictionary_words_min_max:
  "load_dictionary_words db fs p None (Some mn) (Some mx) = (tr, Inr ws) \<Longrightarrow>
     \<forall>w \<in> set ws. mn \<le> int (length w) \<and> int (length w) \<le> mx"
proof -
  assume "load_dictionary_words db fs p None (Some mn) (Some mx) = (tr, Inr ws)"
  then obtain ls where "ws = filter_words db ls None (Some mn) (Some mx)"
    using load_dictionary_words_returns by blast
  then show ?thesis
    by (simp add: filter_words_def filter_by_length_def)
qed

theorem load_dictionary_words_min_max_witness:
  "load_dictionary_words ascii_db
        (\<lambda>_. Lines [lit ''a'' @ [10], lit ''ab'' @ [10], lit ''abc'' @ [10], lit ''abcd''])
        [] None (Some 2) (Some 3)
      = ([Log INFO (LoadedWords 2)], Inr [lit ''ab'', lit ''abc''])
   \<and> 2 \<le> int (length (lit ''ab'')) \<and> int (length (lit ''ab'')) \<le> 3
   \<and> 2 \<le> int (length (lit ''abc'')) \<and> int (length (lit ''abc'')) \<le> 3"
proof -
  have run: "load_dictionary_words ascii_db
        (\<lambda>_. Lines [lit ''a'' @ [10], lit ''ab'' @ [10], lit ''abc'' @ [10], lit ''abcd''])
        [] None (Some 2) (Some 3)
      = ([Log INFO (LoadedWords 2)], Inr [lit ''ab'', lit ''abc''])"
    by (simp add: load_dictionary_words_def filter_words_def filter_by_length_def
        read_words_def strip_def str_isalpha_def ascii_db_def lit_def)
  from load_dictionary_words_min_max [OF run]
  show ?thesis using run by simp
qed

text \<open>
  C5. Whatever the file holds and whatever lengths are asked for, every word that
  \<open>load_dictionary_words\<close> returns is made of alphabetic characters only (and is not
  empty): a word with a non-alphabetic character is never returned.
\<close>

theorem load_dictionary_words_alphabetic:
  "load_dictionary_words db fs p len mn mx = (tr, Inr ws) \<Longrightarrow>
     \<forall>w \<in> set ws. w \<noteq> [] \<and> (\<forall>c \<in> set w. ch_isalpha db c)"
proof -
  assume "load_dictionary_words db fs p len mn mx = (tr, Inr ws)"
  then obtain ls where "ws = filter_words db ls len mn mx"
    using load_dictionary_words_returns by blast
  then show ?thesis
    by (simp add: filter_words_def str_isalpha_def list_all_iff)
qed

theorem load_dictionary_words_alphabetic_witness:
  "load_dictionary_words ascii_db
        (\<lambda>_. Lines [lit ''a1c'' @ [10], lit ''  Abc '' @ [10], [10], lit ''x-y''])
        [] (Some 3) None None
      = ([Log INFO (LoadedWords 1)], Inr [lit ''abc''])
   \<and> lit ''abc'' \<noteq> []
   \<and> ch_isalpha ascii_db 97 \<and> ch_isalpha ascii_db 98 \<and> ch_isalpha ascii_db 99
   \<and> \<not> ch_isalpha ascii_db (of_char CHR ''1'') \<and> \<not> ch_isalpha ascii_db (of_char CHR ''-'')"
proof -
  have run: "load_dictionary_words ascii_db
        (\<lambda>_. Lines [lit ''a1c'' @ [10], lit ''  Abc '' @ [10], [10], lit ''x-y''])
        [] (Some 3) None None
      = ([Log INFO (LoadedWords 1)], Inr [lit ''abc''])"
    by (simp add: load_dictionary_words_def filter_words_def filter_by_length_def
        read_words_def strip_def str_isalpha_def ascii_db_def lit_def)
  from load_dictionary_words_alphabetic [OF run]
  show ?thesis using run by (simp add: lit_def ascii_db_def)
qed

text \<open>
  C9. An exact length takes precedence in \<open>load_dictionary_words\<close>: a minimum and a
  maximum passed together with it are ignored, and the outcome (the words and the log)
  is that of the call with the exact length alone.
\<close>

theorem load_dictionary_words_length_precedence:
  "load_dictionary_words db fs p (Some L) mn mx = load_dictionary_words db fs p (Some L) None None"
proof -
  have "filter_words db ls (Some L) mn mx = filter_words db ls (Some L) None None" for ls
    by (simp add: filter_words_def filter_by_length_def)
  then show ?thesis
    by (cases "fs p") (simp_all add: load_dictionary_words_def)
qed

section \<open>Properties of the credentials and of the empty word list\<close>

text \<open>
  C10. \<open>load_credentials\<close> treats an empty credential as a missing one: if
  \<open>GODADDY_API_KEY\<close> or \<open>GODADDY_API_SECRET\<close> is unset or empty, it logs an error and
  exits with status 1; if both are set and not empty, it logs nothing and returns
  the two strings as they are.
\<close>

theorem load_credentials_missing_or_empty:
  "((ge (lit ''GODADDY_API_KEY'') = None \<or> ge (lit ''GODADDY_API_KEY'') = Some []
      \<or> ge (lit ''GODADDY_API_SECRET'') = None \<or> ge (lit ''GODADDY_API_SECRET'') = Some [])
      \<longrightarrow> load_credentials ge = ([Log ERROR MissingCredentials], Inl (SystemExit 1)))
   \<and> (ge (lit ''GODADDY_API_KEY'') = Some k \<and> k \<noteq> []
        \<and> ge (lit ''GODADDY_API_SECRET'') = Some s \<and> s \<noteq> []
      \<longrightarrow> load_credentials ge = ([], Inr (k, s)))"
  by (auto simp: load_credentials_def Let_def)

theorem load_credentials_missing_or_empty_witness:
  "load_credentials [lit ''GODADDY_API_KEY'' \<mapsto> lit ''key'', lit ''GODADDY_API_SECRET'' \<mapsto> []]
     = ([Log ERROR MissingCredentials], Inl (SystemExit 1))
   \<and> load_credentials [lit ''GODADDY_API_KEY'' \<mapsto> lit ''key'']
     = ([Log ERROR MissingCredentials], Inl (SystemExit 1))
   \<and> load_credentials [lit ''GODADDY_API_KEY'' \<mapsto> lit ''key'', lit ''GODADDY_API_SECRET'' \<mapsto> lit ''secret'']
     = ([], Inr (lit ''key'', lit ''secret''))"
proof -
  have empty: "load_credentials [lit ''GODADDY_API_KEY'' \<mapsto> lit ''key'', lit ''GODADDY_API_SECRET'' \<mapsto> []]
     = ([Log ERROR MissingCredentials], Inl (SystemExit 1))"
    using load_credentials_missing_or_empty
      [of "[lit ''GODADDY_API_KEY'' \<mapsto> lit ''key'', lit ''GODADDY_API_SECRET'' \<mapsto> []]"]
    by (simp add: lit_def)
  have missing: "load_credentials [lit ''GODADDY_API_KEY'' \<mapsto> lit ''key'']
     = ([Log ERROR MissingCredentials], Inl (SystemExit 1))"
    using load_credentials_missing_or_empty [of "[lit ''GODADDY_API_KEY'' \<mapsto> lit ''key'']"]
    by (simp add: lit_def)
  have both: "load_credentials [lit ''GODADDY_API_KEY'' \<mapsto> lit ''key'', lit ''GODADDY_API_SECRET'' \<mapsto> lit ''secret'']
     = ([], Inr (lit ''key'', lit ''secret''))"
    using load_credentials_missing_or_empty
      [of "[lit ''GODADDY_API_KEY'' \<mapsto> lit ''key'', lit ''GODADDY_API_SECRET'' \<mapsto> lit ''secret'']"
          "lit ''key''" "lit ''secret''"]
    by (simp add: lit_def)
  from empty missing both show ?thesis by simp
qed

text \<open>
  C6. When the arguments are accepted, the credentials are there and the dictionary is
  read but no word survives the filter, \<open>main\<close> logs that no words were found and
  exits with status 1. The events of the whole run are the two messages of loading
  and that error: no request is posted and no file is written.
\<close>

theorem main_no_words:
  assumes "parse_arguments (argv env) = Inr args"
    and "load_credentials (environ env) = (tr_c, Inr creds)"
    and "load_dictionary_words db (fs_read env) (ns_dict args)
           (ns_length args) (ns_min_length args) (ns_max_length args) = (tr_d, Inr [])"
  shows "main db env =
           ([Log INFO (LoadingDictionary (ns_dict args)), Log INFO (LoadedWords 0),
             Log ERROR NoWordsFound],
            Inl (SystemExit 1))
         \<and> (\<forall>ev \<in> set (fst (main db env)).
               (\<forall>n req. ev \<noteq> Post n req) \<and> (\<forall>path results. ev \<noteq> WriteJson path results))"
proof -
  have c: "tr_c = []"
    using assms(2) by (auto simp: load_credentials_def Let_def split: if_splits)
  have d: "tr_d = [Log INFO (LoadedWords 0)]"
    using assms(3) by (auto simp: load_dictionary_words_def Let_def split: file_read.splits)
  have "main db env =
           ([Log INFO (LoadingDictionary (ns_dict args)), Log INFO (LoadedWords 0),
             Log ERROR NoWordsFound],
            Inl (SystemExit 1))"
    using assms c d by (cases creds) (simp add: main_def)
  then show ?thesis by simp
qed

theorem main_no_words_witness:
  "main ascii_db example_env =
     ([Log INFO (LoadingDictionary (lit ''words.txt'')), Log INFO (LoadedWords 0),
       Log ERROR NoWordsFound],
      Inl (SystemExit 1))"
proof -
  have p: "parse_arguments (argv example_env) = Inr (argv example_env)"
    by (simp add: parse_arguments_def example_env_def)
  have c: "load_credentials (environ example_env) = ([], Inr (lit ''key'', lit ''secret''))"
    by (simp add: load_credentials_def example_env_def lit_def)
  have d: "load_dictionary_words ascii_db (fs_read example_env) (ns_dict (argv example_env))
      (ns_length (argv example_env)) (ns_min_length (argv example_env)) (ns_max_length (argv example_env))
     = ([Log INFO (LoadedWords 0)], Inr [])"
    by (simp add: load_dictionary_words_def filter_words_def filter_by_length_def
        read_words_def strip_def str_isalpha_def ascii_db_def lit_def example_env_def)
  from main_no_words [OF p c d] show ?thesis by (simp add: example_env_def)
qed

section \<open>Properties of the batches\<close>

lemma batch_range_Nil: "n \<le> i \<Longrightarrow> batch_range i n = []"
  by (simp add: batch_range.simps)

lemma batch_range_Cons: "i < n \<Longrightarrow> batch_range i n = i # batch_range (i + BATCH_SIZE) n"
  by (subst batch_range.simps) simp

lemma batch_range_bounds: "j \<in> set (batch_range i n) \<Longrightarrow> i \<le> j \<and> j < n"
proof (induction i n rule: batch_range.induct)
  case (1 i n)
  show ?case
  proof (cases "i < n")
    case True
    with "1.prems" have "j = i \<or> j \<in> set (batch_range (i + BATCH_SIZE) n)"
      by (simp add: batch_range_Cons)
    with "1.IH" True show ?thesis by auto
  next
    case False
    with "1.prems" show ?thesis by (simp add: batch_range_Nil)
  qed
qed

lemma concat_batches:
  "n = length ws \<Longrightarrow> concat (map (batch_words ws) (batch_range i n)) = drop i ws"
proof (induction i n rule: batch_range.induct)
  case (1 i n)
  show ?case
  proof (cases "i < n")
    case True
    have "take BATCH_SIZE (drop i ws) @ drop (i + BATCH_SIZE) ws = drop i ws"
      by (metis add.commute append_take_drop_id drop_drop)
    with 1 True show ?thesis
      by (simp add: batch_range_Cons batch_words_def)
  next
    case False
    with 1 show ?thesis by (simp add: batch_range_Nil)
  qed
qed

lemma last_batch: "i \<in> set (batch_range k n) \<Longrightarrow> (i + BATCH_SIZE < n) = (i \<noteq> last (batch_range k n))"
proof (induction k n rule: batch_range.induct)
  case (1 k n)
  from "1.prems" have kn: "k < n"
    by (cases "k < n") (simp_all add: batch_range_Nil)
  show ?case
  proof (cases "k + BATCH_SIZE < n")
    case True
    then have ne: "batch_range (k + BATCH_SIZE) n \<noteq> []"
      by (simp add: batch_range_Cons)
    then have "last (batch_range (k + BATCH_SIZE) n) \<in> set (batch_range (k + BATCH_SIZE) n)"
      by simp
    then have "k + BATCH_SIZE \<le> last (batch_range (k + BATCH_SIZE) n)"
      using batch_range_bounds by blast
    then have "k \<noteq> last (batch_range (k + BATCH_SIZE) n)"
      by (simp add: BATCH_SIZE_def)
    with "1.prems" "1.IH" [OF kn] kn ne True show ?thesis
      by (auto simp: batch_range_Cons [of k n])
  next
    case False
    then have "batch_range (k + BATCH_SIZE) n = []"
      by (simp add: batch_range_Nil)
    with "1.prems" kn False show ?thesis
      by (simp add: batch_range_Cons [of k n])
  qed
qed

section \<open>Properties of the dictionary of results\<close>

lemma setitem_keys: "k \<in> fst ` set d \<Longrightarrow> map fst (setitem k v d) = map fst d"
  by (induction d) force+

lemma setitem_keys_new: "k \<notin> fst ` set d \<Longrightarrow> map fst (setitem k v d) = map fst d @ [k]"
  by (induction d) auto

lemma setitem_set: "set (setitem k v d) \<subseteq> insert (k, v) (set d)"
  by (induction d) (auto split: if_splits)

lemma map_of_key: "k \<in> fst ` set d \<Longrightarrow> \<exists>v. map_of d k = Some v"
  by (cases "map_of d k") (auto simp: map_of_eq_None_iff)

lemma fold_setitem_empty:
  "distinct (map fst d) \<Longrightarrow> \<forall>(k, v) \<in> set d. v = [] \<Longrightarrow>
     set (map fst (fold (\<lambda>tld d. setitem tld [] d) tlds d)) = set (map fst d) \<union> set tlds
     \<and> distinct (map fst (fold (\<lambda>tld d. setitem tld [] d) tlds d))
     \<and> (\<forall>(k, v) \<in> set (fold (\<lambda>tld d. setitem tld [] d) tlds d). v = [])"
proof (induction tlds arbitrary: d)
  case Nil
  then show ?case by simp
next
  case (Cons t tlds)
  have dist: "distinct (map fst (setitem t [] d))"
    using Cons.prems(1) by (cases "t \<in> fst ` set d") (simp_all add: setitem_keys setitem_keys_new)
  have vals: "\<forall>(k, v) \<in> set (setitem t [] d). v = []"
    using Cons.prems(2) setitem_set [of t "[]" d] by auto
  have keys: "set (map fst (setitem t [] d)) = insert t (set (map fst d))"
    by (cases "t \<in> fst ` set d") (auto simp: setitem_keys setitem_keys_new)
  from Cons.IH [OF dist vals] keys show ?case by simp
qed

lemma empty_lists_keys:
  "set (map fst (empty_lists tlds)) = set tlds \<and> distinct (map fst (empty_lists tlds))
   \<and> (\<forall>(k, v) \<in> set (empty_lists tlds). v = [])"
  using fold_setitem_empty [of "[]" tlds] by (simp add: empty_lists_def)

text \<open>Two ways to reason about a loop: what a run that ends keeps, and when it ends.\<close>

lemma for_each_preserves:
  assumes "for_each body xs s = Inr s'"
    and "P s"
    and "\<And>x s s'. x \<in> set xs \<Longrightarrow> P s \<Longrightarrow> body x s = Inr s' \<Longrightarrow> P s'"
  shows "P s'"
  using assms
proof (induction xs arbitrary: s)
  case Nil
  then show ?case by simp
next
  case (Cons x xs)
  from Cons.prems(1) obtain s1 where s1: "body x s = Inr s1" and rest: "for_each body xs s1 = Inr s'"
    by (auto split: sum.splits)
  have "P s1"
    using Cons.prems(3) [OF _ Cons.prems(2) s1] by simp
  from Cons.IH [OF rest this] Cons.prems(3) show ?case
    by (meson list.set_intros(2))
qed

lemma for_each_returns:
  assumes "P s"
    and "\<And>x s. x \<in> set xs \<Longrightarrow> P s \<Longrightarrow> \<exists>s'. body x s = Inr s' \<and> P s'"
  shows "\<exists>s'. for_each body xs s = Inr s' \<and> P s'"
  using assms
proof (induction xs arbitrary: s)
  case Nil
  then show ?case by simp
next
  case (Cons x xs)
  from Cons.prems obtain s1 where s1: "body x s = Inr s1" "P s1"
    by (meson list.set_intros(1))
  from Cons.IH [OF s1(2)] Cons.prems(2) obtain s' where "for_each body xs s1 = Inr s'" "P s'"
    by (meson list.set_intros(2))
  with s1 show ?case by simp
qed

section \<open>Properties of the loop\<close>

lemma reported_mono:
  "reported net checker words tr tld d \<Longrightarrow> set tr \<subseteq> set tr' \<Longrightarrow> reported net checker words tr' tld d"
  unfolding reported_def by blast

lemma sound_trace_mono:
  "sound net checker words s \<Longrightarrow> available_domains s' = available_domains s \<Longrightarrow>
     set (trace s) \<subseteq> set (trace s') \<Longrightarrow> sound net checker words s'"
  unfolding sound_def using reported_mono by metis

lemma record_result_returns:
  "tld \<in> fst ` set (available_domains s) \<Longrightarrow> as_dict r \<noteq> None \<Longrightarrow>
     \<exists>s'. record_result tld r s = Inr s'"
  using map_of_key [of tld "available_domains s"]
  by (auto simp: record_result_def Let_def)

lemma record_result_shape:
  assumes "record_result tld r s = Inr s'"
  shows "map fst (available_domains s') = map fst (available_domains s)
         \<and> calls s' = calls s \<and> (\<exists>l m. trace s' = trace s @ [Log l m])"
proof -
  from assms obtain d where d: "as_dict r = Some d"
    by (auto simp: record_result_def split: option.splits)
  show ?thesis
  proof (cases "truthy (get d (lit ''available''))")
    case True
    with assms d obtain ds where ds: "map_of (available_domains s) tld = Some ds"
      by (auto simp: record_result_def Let_def split: option.splits)
    then have "tld \<in> fst ` set (available_domains s)"
      using map_of_SomeD by force
    then have "map fst (setitem tld v (available_domains s)) = map fst (available_domains s)" for v
      by (rule setitem_keys)
    with assms True d ds show ?thesis
      by (auto simp: record_result_def Let_def)
  next
    case False
    with assms d show ?thesis
      by (auto simp: record_result_def Let_def)
  qed
qed

lemma record_result_sound:
  assumes "record_result tld r s = Inr s'"
    and "sound net checker words s"
    and "\<And>d. as_dict r = Some d \<Longrightarrow> truthy (get d (lit ''available'')) \<Longrightarrow>
           reported net checker words (trace s) tld (get d (lit ''domain''))"
  shows "sound net checker words s'"
proof -
  from assms(1) obtain r' where r': "as_dict r = Some r'"
    by (auto simp: record_result_def split: option.splits)
  show ?thesis
  proof (cases "truthy (get r' (lit ''available''))")
    case True
    with assms(1) r' obtain ds where ds: "map_of (available_domains s) tld = Some ds"
      and s': "s' = s\<lparr>available_domains := setitem tld (ds @ [get r' (lit ''domain'')]) (available_domains s),
                      trace := trace s @ [Log INFO (Available (get r' (lit ''domain'')))]\<rparr>"
      by (auto simp: record_result_def Let_def split: option.splits)
    have old: "(tld, ds) \<in> set (available_domains s)"
      using ds by (rule map_of_SomeD)
    show ?thesis
      unfolding sound_def
    proof (intro allI impI)
      fix t es d
      assume in_s': "(t, es) \<in> set (available_domains s')" and d: "d \<in> set es"
      from in_s' s' setitem_set [of tld "ds @ [get r' (lit ''domain'')]" "available_domains s"]
      have "(t, es) \<in> set (available_domains s) \<or> (t = tld \<and> es = ds @ [get r' (lit ''domain'')])"
        by auto
      then have "reported net checker words (trace s) t d"
      proof
        assume "(t, es) \<in> set (available_domains s)"
        with assms(2) d show ?thesis unfolding sound_def by blast
      next
        assume new: "t = tld \<and> es = ds @ [get r' (lit ''domain'')]"
        with d have "d \<in> set ds \<or> d = get r' (lit ''domain'')" by auto
        then show ?thesis
        proof
          assume "d \<in> set ds"
          with assms(2) old new show ?thesis unfolding sound_def by blast
        next
          assume "d = get r' (lit ''domain'')"
          with assms(3) [OF r' True] new show ?thesis by simp
        qed
      qed
      then show "reported net checker words (trace s') t d"
        by (rule reported_mono) (auto simp: s')
    qed
  next
    case False
    with assms(1) r' have s': "s' = s\<lparr>trace := trace s @ [Log DEBUG (Taken (get r' (lit ''domain'')))]\<rparr>"
      by (auto simp: record_result_def Let_def)
    from assms(2) show ?thesis
      by (rule sound_trace_mono) (auto simp: s')
  qed
qed

lemma for_each_record_result_shape:
  assumes "for_each (record_result tld) rs s = Inr s'"
  shows "map fst (available_domains s') = map fst (available_domains s)
           \<and> calls s' = calls s
           \<and> (\<exists>evs. trace s' = trace s @ evs \<and> (\<forall>ev \<in> set evs. \<exists>l m. ev = Log l m))"
  using assms
proof (induction rs arbitrary: s)
  case Nil
  then show ?case by simp
next
  case (Cons r rs)
  from Cons.prems obtain s1 where s1: "record_result tld r s = Inr s1"
    and rest: "for_each (record_result tld) rs s1 = Inr s'"
    by (auto split: sum.splits)
  from record_result_shape [OF s1] obtain l m where
    sh: "map fst (available_domains s1) = map fst (available_domains s)" "calls s1 = calls s"
      "trace s1 = trace s @ [Log l m]"
    by blast
  from Cons.IH [OF rest] obtain evs where
    "map fst (available_domains s') = map fst (available_domains s1)"
    "calls s' = calls s1" "trace s' = trace s1 @ evs" "\<forall>ev \<in> set evs. \<exists>l m. ev = Log l m"
    by blast
  with sh have "map fst (available_domains s') = map fst (available_domains s)
           \<and> calls s' = calls s
           \<and> trace s' = trace s @ (Log l m # evs) \<and> (\<forall>ev \<in> set (Log l m # evs). \<exists>l m. ev = Log l m)"
    by simp
  then show ?case by blast
qed

lemma for_each_record_result_returns:
  assumes "tld \<in> fst ` set (available_domains s)"
    and "list_all (\<lambda>r. as_dict r \<noteq> None) rs"
  shows "\<exists>s'. for_each (record_result tld) rs s = Inr s'"
  using assms
proof (induction rs arbitrary: s)
  case Nil
  then show ?case by simp
next
  case (Cons r rs)
  from Cons.prems have "as_dict r \<noteq> None" by simp
  from record_result_returns [OF Cons.prems(1) this] obtain s1 where
    s1: "record_result tld r s = Inr s1"
    by blast
  from record_result_shape [OF s1] Cons.prems(1) have "tld \<in> fst ` set (available_domains s1)"
    by (metis list.set_map)
  from Cons.IH [OF this] Cons.prems(2) obtain s' where "for_each (record_result tld) rs s1 = Inr s'"
    by auto
  with s1 show ?case by simp
qed

lemma for_each_record_result_sound:
  assumes "for_each (record_result tld) rs s = Inr s'"
    and "sound net checker words s"
    and "\<forall>d. JObj d \<in> set rs \<longrightarrow> truthy (get d (lit ''available'')) \<longrightarrow>
           reported net checker words (trace s) tld (get d (lit ''domain''))"
  shows "sound net checker words s'"
  using assms
proof (induction rs arbitrary: s)
  case Nil
  then show ?case by simp
next
  case (Cons r rs)
  from Cons.prems(1) obtain s1 where s1: "record_result tld r s = Inr s1"
    and rest: "for_each (record_result tld) rs s1 = Inr s'"
    by (auto split: sum.splits)
  have "reported net checker words (trace s) tld (get d (lit ''domain''))"
    if "as_dict r = Some d" "truthy (get d (lit ''available''))" for d
  proof -
    from that(1) have "r = JObj d" by (cases r) simp_all
    with Cons.prems(3) that(2) show ?thesis by simp
  qed
  from record_result_sound [OF s1 Cons.prems(2) this] have snd1: "sound net checker words s1" .
  from record_result_shape [OF s1] have "set (trace s) \<subseteq> set (trace s1)"
    by auto
  with Cons.prems(3) have "\<forall>d. JObj d \<in> set rs \<longrightarrow> truthy (get d (lit ''available'')) \<longrightarrow>
           reported net checker words (trace s1) tld (get d (lit ''domain''))"
    using reported_mono by (metis list.set_intros(2))
  from Cons.IH [OF rest snd1 this] show ?case .
qed

lemma check_batch_events:
  "fst (check_batch net checker n batch) = [Post n (request_for checker batch)]
   \<or> (\<exists>e. fst (check_batch net checker n batch)
             = [Post n (request_for checker batch), Log ERROR (ApiRequestFailed e)])"
  by (cases "net n (request_for checker batch)") (simp_all add: check_batch_def)

lemma process_batch_run:
  assumes "process_batch net checker words tld i s = Inr s'"
  obtains events results rs s2 where
    "check_batch net checker (calls s) (map (\<lambda>word. word @ tld) (batch_words words i))
       = (events, Inr results)"
    and "iter results = Some rs"
    and "for_each (record_result tld) rs (s\<lparr>trace := trace s @ events, calls := Suc (calls s)\<rparr>) = Inr s2"
    and "s' = s2\<lparr>trace := trace s2
                    @ [Log INFO (Progress (min (i + BATCH_SIZE) (length words)) (length words) tld)]
                    @ (if i + BATCH_SIZE < length words then [Sleep DELAY_SECONDS] else [])\<rparr>"
proof -
  obtain events returned where cb:
    "check_batch net checker (calls s) (map (\<lambda>word. word @ tld) (batch_words words i)) = (events, returned)"
    by (cases "check_batch net checker (calls s) (map (\<lambda>word. word @ tld) (batch_words words i))")
  with assms obtain results where r: "returned = Inr results"
    by (cases returned) (simp_all add: process_batch_def Let_def)
  with assms cb obtain rs where rs: "iter results = Some rs"
    by (cases "iter results") (simp_all add: process_batch_def Let_def)
  with assms cb r obtain s2 where s2:
    "for_each (record_result tld) rs (s\<lparr>trace := trace s @ events, calls := Suc (calls s)\<rparr>) = Inr s2"
    by (cases "for_each (record_result tld) rs (s\<lparr>trace := trace s @ events, calls := Suc (calls s)\<rparr>)")
       (simp_all add: process_batch_def Let_def)
  with assms cb r rs have
    "s' = s2\<lparr>trace := trace s2
                    @ [Log INFO (Progress (min (i + BATCH_SIZE) (length words)) (length words) tld)]
                    @ (if i + BATCH_SIZE < length words then [Sleep DELAY_SECONDS] else [])\<rparr>"
    by (auto simp: process_batch_def Let_def split: if_splits)
  with cb r rs s2 that show thesis by blast
qed

lemma process_batch_shape:
  assumes "process_batch net checker words tld i s = Inr s'"
  shows "map fst (available_domains s') = map fst (available_domains s)
         \<and> calls s' = Suc (calls s)
         \<and> (\<exists>evs. trace s' = trace s
                @ Post (calls s) (request_for checker (map (\<lambda>word. word @ tld) (batch_words words i))) # evs
                @ (if i + BATCH_SIZE < length words then [Sleep DELAY_SECONDS] else [])
              \<and> (\<forall>ev \<in> set evs. \<exists>l m. ev = Log l m))"
proof -
  let ?batch = "map (\<lambda>word. word @ tld) (batch_words words i)"
  let ?p = "Log INFO (Progress (min (i + BATCH_SIZE) (length words)) (length words) tld)"
  from assms obtain events results rs s2 where
    cb: "check_batch net checker (calls s) ?batch = (events, Inr results)"
    and loop: "for_each (record_result tld) rs (s\<lparr>trace := trace s @ events, calls := Suc (calls s)\<rparr>) = Inr s2"
    and s': "s' = s2\<lparr>trace := trace s2 @ [?p]
                    @ (if i + BATCH_SIZE < length words then [Sleep DELAY_SECONDS] else [])\<rparr>"
    by (rule process_batch_run)
  from check_batch_events [of net checker "calls s" ?batch] cb obtain logs where
    ev: "events = Post (calls s) (request_for checker ?batch) # logs" "\<forall>ev \<in> set logs. \<exists>l m. ev = Log l m"
    by auto
  from for_each_record_result_shape [OF loop] obtain evs where
    sh: "map fst (available_domains s2) = map fst (available_domains s)" "calls s2 = Suc (calls s)"
      "trace s2 = trace s @ events @ evs" "\<forall>ev \<in> set evs. \<exists>l m. ev = Log l m"
    by auto
  have "trace s' = trace s @ Post (calls s) (request_for checker ?batch) # (logs @ evs @ [?p])
          @ (if i + BATCH_SIZE < length words then [Sleep DELAY_SECONDS] else [])"
    using s' sh(3) ev(1) by simp
  moreover have "\<forall>ev \<in> set (logs @ evs @ [?p]). \<exists>l m. ev = Log l m"
    using ev(2) sh(4) by auto
  moreover have "map fst (available_domains s') = map fst (available_domains s) \<and> calls s' = Suc (calls s)"
    using s' sh(1,2) by simp
  ultimately show ?thesis by blast
qed

lemma process_batch_sound:
  assumes run: "process_batch net checker words tld i s = Inr s'"
    and snd0: "sound net checker words s"
  shows "sound net checker words s'"
proof -
  let ?batch = "map (\<lambda>word. word @ tld) (batch_words words i)"
  from run obtain events results rs s2 where
    cb: "check_batch net checker (calls s) ?batch = (events, Inr results)"
    and it: "iter results = Some rs"
    and loop: "for_each (record_result tld) rs (s\<lparr>trace := trace s @ events, calls := Suc (calls s)\<rparr>) = Inr s2"
    and s': "s' = s2\<lparr>trace := trace s2
                    @ [Log INFO (Progress (min (i + BATCH_SIZE) (length words)) (length words) tld)]
                    @ (if i + BATCH_SIZE < length words then [Sleep DELAY_SECONDS] else [])\<rparr>"
    by (rule process_batch_run)
  define s1 where "s1 = s\<lparr>trace := trace s @ events, calls := Suc (calls s)\<rparr>"
  have snd1: "sound net checker words s1"
    using snd0 by (rule sound_trace_mono) (auto simp: s1_def)
  have posted: "Post (calls s) (request_for checker ?batch) \<in> set (trace s1)"
    using check_batch_events [of net checker "calls s" ?batch] cb by (auto simp: s1_def)
  have sub: "set ?batch \<subseteq> (\<lambda>word. word @ tld) ` set words"
    using set_take_subset set_drop_subset by (fastforce simp: batch_words_def)
  have "\<forall>d. JObj d \<in> set rs \<longrightarrow> truthy (get d (lit ''available'')) \<longrightarrow>
           reported net checker words (trace s1) tld (get d (lit ''domain''))"
    unfolding reported_def using posted sub cb it
    by (metis snd_conv)
  from for_each_record_result_sound [OF loop [folded s1_def] snd1 this]
  have "sound net checker words s2" .
  then show ?thesis
    by (rule sound_trace_mono) (auto simp: s')
qed

lemma process_batch_returns:
  assumes key: "tld \<in> fst ` set (available_domains s)"
    and wf: "well_formed (net (calls s) (request_for checker (map (\<lambda>word. word @ tld) (batch_words words i))))"
  shows "\<exists>s'. process_batch net checker words tld i s = Inr s'"
proof -
  let ?batch = "map (\<lambda>word. word @ tld) (batch_words words i)"
  from wf obtain events results rs where
    cb: "check_batch net checker (calls s) ?batch = (events, Inr results)"
    and it: "iter results = Some rs" and dicts: "list_all (\<lambda>r. as_dict r \<noteq> None) rs"
    by (cases "net (calls s) (request_for checker ?batch)")
       (auto simp: well_formed_def check_batch_def split: option.splits)
  have "tld \<in> fst ` set (available_domains (s\<lparr>trace := trace s @ events, calls := Suc (calls s)\<rparr>))"
    using key by simp
  from for_each_record_result_returns [OF this dicts] obtain s2 where
    "for_each (record_result tld) rs (s\<lparr>trace := trace s @ events, calls := Suc (calls s)\<rparr>) = Inr s2"
    by blast
  with cb it show ?thesis
    by (simp add: process_batch_def Let_def)
qed

lemma posted_batches_append: "posted_batches (xs @ ys) = posted_batches xs @ posted_batches ys"
  by (induction xs rule: posted_batches.induct) simp_all

lemma posted_batches_logs: "\<forall>ev \<in> set evs. \<exists>l m. ev = Log l m \<Longrightarrow> posted_batches evs = []"
  by (induction evs rule: posted_batches.induct) auto

lemma posts_and_sleeps_append:
  "posts_and_sleeps (xs @ ys) = posts_and_sleeps xs @ posts_and_sleeps ys"
  by (simp add: posts_and_sleeps_def)

lemma posts_and_sleeps_logs: "\<forall>ev \<in> set evs. \<exists>l m. ev = Log l m \<Longrightarrow> posts_and_sleeps evs = []"
  by (induction evs) (auto simp: posts_and_sleeps_def)

lemma process_batch_posted:
  assumes "process_batch net checker words tld i s = Inr s'"
  shows "posted_batches (trace s') =
           posted_batches (trace s) @ [map (\<lambda>word. word @ tld) (batch_words words i)]"
proof -
  from process_batch_shape [OF assms] obtain evs where
    tr: "trace s' = trace s
           @ Post (calls s) (request_for checker (map (\<lambda>word. word @ tld) (batch_words words i))) # evs
           @ (if i + BATCH_SIZE < length words then [Sleep DELAY_SECONDS] else [])"
    and logs: "\<forall>ev \<in> set evs. \<exists>l m. ev = Log l m"
    by blast
  show ?thesis
    by (simp add: tr posted_batches_append posted_batches_logs [OF logs] request_for_def)
qed

lemma process_batch_posts_and_sleeps:
  assumes "process_batch net checker words tld i s = Inr s'"
  shows "posts_and_sleeps (trace s') =
           posts_and_sleeps (trace s)
           @ Post (calls s) (request_for checker (map (\<lambda>word. word @ tld) (batch_words words i)))
           # (if i + BATCH_SIZE < length words then [Sleep DELAY_SECONDS] else [])"
proof -
  from process_batch_shape [OF assms] obtain evs where
    tr: "trace s' = trace s
           @ [Post (calls s) (request_for checker (map (\<lambda>word. word @ tld) (batch_words words i)))]
           @ evs
           @ (if i + BATCH_SIZE < length words then [Sleep DELAY_SECONDS] else [])"
    and logs: "\<forall>ev \<in> set evs. \<exists>l m. ev = Log l m"
    by auto
  show ?thesis
    unfolding tr posts_and_sleeps_append posts_and_sleeps_logs [OF logs]
    by (simp add: posts_and_sleeps_def)
qed

lemma batches_loop_posted:
  assumes "for_each (process_batch net checker words tld) xs s = Inr s'"
  shows "posted_batches (trace s') =
           posted_batches (trace s) @ map (\<lambda>i. map (\<lambda>word. word @ tld) (batch_words words i)) xs"
  using assms
proof (induction xs arbitrary: s)
  case Nil
  then show ?case by simp
next
  case (Cons i xs)
  from Cons.prems obtain s1 where s1: "process_batch net checker words tld i s = Inr s1"
    and rest: "for_each (process_batch net checker words tld) xs s1 = Inr s'"
    by (auto split: sum.splits)
  from Cons.IH [OF rest] process_batch_posted [OF s1] show ?case by simp
qed

lemma batches_loop_posts_and_sleeps:
  assumes "for_each (process_batch net checker words tld) xs s = Inr s'"
  shows "posts_and_sleeps (trace s') =
           posts_and_sleeps (trace s)
           @ concat (map (\<lambda>(n, i).
                 Post n (request_for checker (map (\<lambda>word. word @ tld) (batch_words words i)))
                 # (if i + BATCH_SIZE < length words then [Sleep DELAY_SECONDS] else []))
               (enumerate (calls s) xs))"
  using assms
proof (induction xs arbitrary: s)
  case Nil
  then show ?case by simp
next
  case (Cons i xs)
  from Cons.prems obtain s1 where s1: "process_batch net checker words tld i s = Inr s1"
    and rest: "for_each (process_batch net checker words tld) xs s1 = Inr s'"
    by (auto split: sum.splits)
  from process_batch_shape [OF s1] have c: "calls s1 = Suc (calls s)" by blast
  from Cons.IH [OF rest] process_batch_posts_and_sleeps [OF s1] c show ?case by simp
qed

lemma check_tld_posted:
  assumes "check_tld net checker words tld s = Inr s'"
  shows "posted_batches (trace s') =
           posted_batches (trace s)
           @ map (\<lambda>i. map (\<lambda>word. word @ tld) (batch_words words i)) (batch_range 0 (length words))"
  using batches_loop_posted [OF assms [unfolded check_tld_def]]
  by (simp add: posted_batches_append)

lemma check_domains_loop_posted:
  assumes "for_each (check_tld net checker words) tlds s = Inr s'"
  shows "posted_batches (trace s') =
           posted_batches (trace s)
           @ concat (map (\<lambda>tld. map (\<lambda>i. map (\<lambda>word. word @ tld) (batch_words words i))
                                   (batch_range 0 (length words))) tlds)"
  using assms
proof (induction tlds arbitrary: s)
  case Nil
  then show ?case by simp
next
  case (Cons tld tlds)
  from Cons.prems obtain s1 where s1: "check_tld net checker words tld s = Inr s1"
    and rest: "for_each (check_tld net checker words) tlds s1 = Inr s'"
    by (auto split: sum.splits)
  from Cons.IH [OF rest] check_tld_posted [OF s1] show ?case by simp
qed

lemma enumerate_snd: "(n, i) \<in> set (enumerate k xs) \<Longrightarrow> i \<in> set xs"
  by (auto simp: in_set_enumerate_eq)

lemma process_batch_inv:
  assumes "process_batch net checker words tld i s = Inr s'"
    and "loop_inv net checker words keys s"
  shows "loop_inv net checker words keys s'"
  using process_batch_shape [OF assms(1)] process_batch_sound [OF assms(1)] assms(2)
  unfolding loop_inv_def by simp

lemma check_tld_inv:
  assumes "check_tld net checker words tld s = Inr s'"
    and "loop_inv net checker words keys s"
  shows "loop_inv net checker words keys s'"
proof -
  have "loop_inv net checker words keys (s\<lparr>trace := trace s @ [Log INFO (CheckingTld tld)]\<rparr>)"
    using assms(2) sound_trace_mono [of net checker words s "s\<lparr>trace := trace s @ [Log INFO (CheckingTld tld)]\<rparr>"]
    unfolding loop_inv_def by auto
  with assms(1) [unfolded check_tld_def] show ?thesis
    by (rule for_each_preserves) (rule process_batch_inv)
qed

lemma check_domains_inv:
  assumes "check_domains net checker words tlds = Inr s"
  shows "loop_inv net checker words (map fst (empty_lists tlds)) s"
proof -
  have "loop_inv net checker words (map fst (empty_lists tlds))
          \<lparr>available_domains = empty_lists tlds, trace = [], calls = 0\<rparr>"
    using empty_lists_keys [of tlds] unfolding loop_inv_def sound_def by fastforce
  with assms [unfolded check_domains_def] show ?thesis
    by (rule for_each_preserves) (rule check_tld_inv)
qed

lemma check_tld_returns:
  assumes "tld \<in> fst ` set (available_domains s)"
    and "\<forall>n req. well_formed (net n req)"
  shows "\<exists>s'. check_tld net checker words tld s = Inr s'
           \<and> map fst (available_domains s') = map fst (available_domains s)"
  unfolding check_tld_def
proof (rule for_each_returns)
  show "map fst (available_domains (s\<lparr>trace := trace s @ [Log INFO (CheckingTld tld)]\<rparr>))
          = map fst (available_domains s)"
    by simp
next
  fix i and t :: run_state
  assume keys: "map fst (available_domains t) = map fst (available_domains s)"
  with assms(1) have "tld \<in> fst ` set (available_domains t)"
    by (metis list.set_map)
  from process_batch_returns [OF this] assms(2) obtain t' where
    t': "process_batch net checker words tld i t = Inr t'"
    by blast
  from process_batch_shape [OF t'] keys
  have "map fst (available_domains t') = map fst (available_domains s)" by simp
  with t' show "\<exists>t'. process_batch net checker words tld i t = Inr t'
                  \<and> map fst (available_domains t') = map fst (available_domains s)"
    by blast
qed

lemma check_domains_returns:
  assumes "\<forall>n req. well_formed (net n req)"
  shows "\<exists>s. check_domains net checker words tlds = Inr s"
proof -
  have "\<exists>s. for_each (check_tld net checker words) tlds
               \<lparr>available_domains = empty_lists tlds, trace = [], calls = 0\<rparr> = Inr s
           \<and> map fst (available_domains s) = map fst (empty_lists tlds)"
  proof (rule for_each_returns)
    show "map fst (available_domains \<lparr>available_domains = empty_lists tlds, trace = [], calls = 0\<rparr>)
            = map fst (empty_lists tlds)"
      by simp
  next
    fix tld and t :: run_state
    assume "tld \<in> set tlds" and keys: "map fst (available_domains t) = map fst (empty_lists tlds)"
    then have "tld \<in> fst ` set (available_domains t)"
      using empty_lists_keys [of tlds] by (metis list.set_map)
    from check_tld_returns [OF this assms] keys
    show "\<exists>t'. check_tld net checker words tld t = Inr t'
                \<and> map fst (available_domains t') = map fst (empty_lists tlds)"
      by auto
  qed
  then show ?thesis
    by (auto simp: check_domains_def)
qed

lemma post_json_request_for: "post_json (request_for checker batch) = batch"
  by (simp add: request_for_def)

lemma example_run:
  "check_domains simulated_net checker [lit ''abc'', lit ''xyz''] [lit ''.com''] =
     Inr \<lparr>available_domains = [(lit ''.com'', [JStr (lit ''abc.com'')])],
          trace = [Log INFO (CheckingTld (lit ''.com'')),
                   Post 0 (request_for checker [lit ''abc.com'', lit ''xyz.com'']),
                   Log INFO (Available (JStr (lit ''abc.com''))),
                   Log DEBUG (Taken (JStr (lit ''xyz.com''))),
                   Log INFO (Progress 2 2 (lit ''.com''))],
          calls = 1\<rparr>"
  by (simp add: check_domains_def empty_lists_def check_tld_def batch_range_Cons batch_range_Nil
      process_batch_def check_batch_def simulated_net_def post_json_request_for batch_words_def
      record_result_def get_def BATCH_SIZE_def Let_def lit_def)

lemma well_formed_simulated_net: "well_formed (simulated_net n req)"
  by (simp add: well_formed_def simulated_net_def list_all_iff lit_def)

text \<open>Runs in which a batch raises.\<close>

lemma record_result_raises: "record_result tld r s = Inl (e, s') \<Longrightarrow> s' = s"
  by (auto simp: record_result_def Let_def split: option.splits if_splits)

lemma for_each_record_result_raises:
  assumes "for_each (record_result tld) rs s = Inl (e, s')"
  shows "\<exists>evs. trace s' = trace s @ evs \<and> (\<forall>ev \<in> set evs. \<exists>l m. ev = Log l m)"
  using assms
proof (induction rs arbitrary: s)
  case Nil
  then show ?case by simp
next
  case (Cons r rs)
  show ?case
  proof (cases "record_result tld r s")
    case (Inl a)
    with Cons.prems have "record_result tld r s = Inl (e, s')" by simp
    from record_result_raises [OF this] show ?thesis by simp
  next
    case (Inr s1)
    with Cons.prems have rest: "for_each (record_result tld) rs s1 = Inl (e, s')" by simp
    from record_result_shape [OF Inr] obtain l m where t1: "trace s1 = trace s @ [Log l m]"
      by blast
    from Cons.IH [OF rest] obtain evs where
      "trace s' = trace s1 @ evs" "\<forall>ev \<in> set evs. \<exists>l m. ev = Log l m"
      by blast
    with t1 have "trace s' = trace s @ (Log l m # evs) \<and> (\<forall>ev \<in> set (Log l m # evs). \<exists>l m. ev = Log l m)"
      by simp
    then show ?thesis by blast
  qed
qed

lemma process_batch_raises:
  assumes "process_batch net checker words tld i s = Inl (e, s')"
  shows "posts_and_sleeps (trace s') =
           posts_and_sleeps (trace s)
           @ [Post (calls s) (request_for checker (map (\<lambda>word. word @ tld) (batch_words words i)))]"
proof -
  let ?batch = "map (\<lambda>word. word @ tld) (batch_words words i)"
  obtain events returned where cb: "check_batch net checker (calls s) ?batch = (events, returned)"
    by (cases "check_batch net checker (calls s) ?batch")
  define s1 where "s1 = s\<lparr>trace := trace s @ events, calls := Suc (calls s)\<rparr>"
  from check_batch_events [of net checker "calls s" ?batch] cb obtain logs where
    ev: "events = Post (calls s) (request_for checker ?batch) # logs" "\<forall>ev \<in> set logs. \<exists>l m. ev = Log l m"
    by auto
  have "\<exists>evs. trace s' = trace s1 @ evs \<and> (\<forall>ev \<in> set evs. \<exists>l m. ev = Log l m)"
  proof (cases returned)
    case (Inl a)
    with assms cb have "s' = s1"
      by (simp add: process_batch_def Let_def s1_def)
    then show ?thesis by simp
  next
    case (Inr results)
    show ?thesis
    proof (cases "iter results")
      case None
      with assms cb Inr have "s' = s1"
        by (simp add: process_batch_def Let_def s1_def)
      then show ?thesis by simp
    next
      case (Some rs)
      with assms cb Inr have "for_each (record_result tld) rs s1 = Inl (e, s')"
        by (cases "for_each (record_result tld) rs s1")
           (auto simp: process_batch_def Let_def s1_def split: if_splits)
      then show ?thesis by (rule for_each_record_result_raises)
    qed
  qed
  then obtain evs where tr: "trace s' = trace s1 @ evs" and logs: "\<forall>ev \<in> set evs. \<exists>l m. ev = Log l m"
    by blast
  have "trace s' = trace s @ [Post (calls s) (request_for checker ?batch)] @ (logs @ evs)"
    using tr ev(1) by (simp add: s1_def)
  moreover have "posts_and_sleeps (logs @ evs) = []"
    using ev(2) logs by (intro posts_and_sleeps_logs) auto
  ultimately show ?thesis
    by (simp add: posts_and_sleeps_append) (simp add: posts_and_sleeps_def)
qed

lemma batches_loop_raises:
  assumes "for_each (process_batch net checker words tld) xs s = Inl (e, s')"
  shows "\<exists>k < length xs.
           posts_and_sleeps (trace s') =
             posts_and_sleeps (trace s)
             @ concat (map (\<lambda>(n, i).
                   Post n (request_for checker (map (\<lambda>word. word @ tld) (batch_words words i)))
                   # (if i + BATCH_SIZE < length words then [Sleep DELAY_SECONDS] else []))
                 (take k (enumerate (calls s) xs)))
             @ [Post (calls s + k)
                  (request_for checker (map (\<lambda>word. word @ tld) (batch_words words (xs ! k))))]"
  using assms
proof (induction xs arbitrary: s)
  case Nil
  then show ?case by simp
next
  case (Cons i xs)
  show ?case
  proof (cases "process_batch net checker words tld i s")
    case (Inl a)
    with Cons.prems have "process_batch net checker words tld i s = Inl (e, s')" by simp
    from process_batch_raises [OF this] show ?thesis
      by (intro exI [of _ 0]) simp
  next
    case (Inr s1)
    with Cons.prems have rest: "for_each (process_batch net checker words tld) xs s1 = Inl (e, s')"
      by simp
    from process_batch_shape [OF Inr] have c: "calls s1 = Suc (calls s)" by blast
    from Cons.IH [OF rest] obtain k where k: "k < length xs"
      and tr: "posts_and_sleeps (trace s') =
             posts_and_sleeps (trace s1)
             @ concat (map (\<lambda>(n, i).
                   Post n (request_for checker (map (\<lambda>word. word @ tld) (batch_words words i)))
                   # (if i + BATCH_SIZE < length words then [Sleep DELAY_SECONDS] else []))
                 (take k (enumerate (calls s1) xs)))
             @ [Post (calls s1 + k)
                  (request_for checker (map (\<lambda>word. word @ tld) (batch_words words (xs ! k))))]"
      by blast
    from tr process_batch_posts_and_sleeps [OF Inr] c k show ?thesis
      by (intro exI [of _ "Suc k"]) simp
  qed
qed

section \<open>The examples\<close>

lemma well_formed_failing_net: "well_formed (failing_net n req)"
  by (simp add: well_formed_def failing_net_def)

lemma range_71: "batch_range 0 71 = [0, 70]"
  by (simp add: batch_range_Cons batch_range_Nil BATCH_SIZE_def)

lemma posts_and_sleeps_Nil: "posts_and_sleeps [] = []"
  by (simp add: posts_and_sleeps_def)

lemma abc_com: "lit ''abc'' @ lit ''.com'' = lit ''abc.com''"
  by (simp add: lit_def)

lemma main_example:
  "main ascii_db abc_env =
     ([Log INFO (LoadingDictionary (lit ''words.txt'')),
       Log INFO (LoadedWords 2),
       Log INFO (CheckingTld (lit ''.com'')),
       Post 0 (request_for (DomainChecker_init (lit ''key'') (lit ''secret''))
                 [lit ''abc.com'', lit ''xyz.com'']),
       Log INFO (Available (JStr (lit ''abc.com''))),
       Log DEBUG (Taken (JStr (lit ''xyz.com''))),
       Log INFO (Progress 2 2 (lit ''.com'')),
       WriteJson OUTPUT_FILE [(lit ''.com'', [JStr (lit ''abc.com'')])],
       Log INFO (ResultsSaved OUTPUT_FILE),
       Log INFO (Complete 1)],
      Inr ())"
proof -
  have p: "parse_arguments (argv abc_env) = Inr (argv abc_env)"
    by (simp add: parse_arguments_def abc_env_def)
  have c: "load_credentials (environ abc_env) = ([], Inr (lit ''key'', lit ''secret''))"
    by (simp add: load_credentials_def abc_env_def lit_def)
  have d: "load_dictionary_words ascii_db (fs_read abc_env) (ns_dict (argv abc_env))
      (ns_length (argv abc_env)) (ns_min_length (argv abc_env)) (ns_max_length (argv abc_env))
     = ([Log INFO (LoadedWords 2)], Inr [lit ''abc'', lit ''xyz''])"
    by (simp add: load_dictionary_words_def filter_words_def filter_by_length_def
        read_words_def strip_def str_isalpha_def ascii_db_def lit_def abc_env_def)
  have t: "parse_tlds ascii_db (ns_tlds (argv abc_env)) = [lit ''.com'']"
    by (simp add: parse_tlds_def str_split_def strip_def ascii_db_def lit_def abc_env_def)
  have n: "network abc_env = simulated_net" and w: "fs_write abc_env OUTPUT_FILE"
    and dict: "ns_dict (argv abc_env) = lit ''words.txt''"
    by (simp_all add: abc_env_def)
  show ?thesis
    by (simp add: main_def p c d t n example_run save_results_def w; simp add: dict)
qed

section \<open>The claims about the loop\<close>

text \<open>
  C2. The batches of the loop are the slices \<open>words[i:i + BATCH_SIZE]\<close> for \<open>i\<close> in
  \<open>range(0, len(words), BATCH_SIZE)\<close>, each word with the suffix added. A run of the
  loop over the batches of one suffix that ends without an exception has posted exactly
  these batches, in this order, and a run of the whole loop has posted them for each
  suffix in turn. Joined in order the slices give back the list of words, and none
  holds more than \<open>BATCH_SIZE\<close> words, which is 70.
\<close>

theorem batches_partition_words:
  "(check_tld net checker words tld s = Inr s' \<longrightarrow>
      posted_batches (trace s') =
        posted_batches (trace s)
        @ map (\<lambda>i. map (\<lambda>word. word @ tld) (batch_words words i)) (batch_range 0 (length words)))
   \<and> (check_domains net checker words tlds = Inr s'' \<longrightarrow>
      posted_batches (trace s'') =
        concat (map (\<lambda>tld. map (\<lambda>i. map (\<lambda>word. word @ tld) (batch_words words i))
                             (batch_range 0 (length words))) tlds))
   \<and> concat (map (batch_words words) (batch_range 0 (length words))) = words
   \<and> (\<forall>i \<in> set (batch_range 0 (length words)). length (batch_words words i) \<le> BATCH_SIZE)
   \<and> BATCH_SIZE = 70"
proof (intro conjI impI)
  assume "check_tld net checker words tld s = Inr s'"
  then show "posted_batches (trace s') =
        posted_batches (trace s)
        @ map (\<lambda>i. map (\<lambda>word. word @ tld) (batch_words words i)) (batch_range 0 (length words))"
    by (rule check_tld_posted)
next
  assume "check_domains net checker words tlds = Inr s''"
  from check_domains_loop_posted [OF this [unfolded check_domains_def]]
  show "posted_batches (trace s'') =
        concat (map (\<lambda>tld. map (\<lambda>i. map (\<lambda>word. word @ tld) (batch_words words i))
                             (batch_range 0 (length words))) tlds)"
    by simp
next
  show "concat (map (batch_words words) (batch_range 0 (length words))) = words"
    by (simp add: concat_batches)
next
  show "\<forall>i \<in> set (batch_range 0 (length words)). length (batch_words words i) \<le> BATCH_SIZE"
    by (simp add: batch_words_def)
next
  show "BATCH_SIZE = 70"
    by (simp add: BATCH_SIZE_def)
qed

theorem batches_partition_words_witness:
  "(\<exists>s'. check_tld failing_net (DomainChecker_init (lit ''key'') (lit ''secret''))
            (replicate 71 (lit ''abc'')) (lit ''.com'')
            \<lparr>available_domains = [(lit ''.com'', [])], trace = [], calls = 0\<rparr> = Inr s'
        \<and> posted_batches (trace s') = [replicate 70 (lit ''abc.com''), [lit ''abc.com'']])
   \<and> (\<exists>s'. check_domains failing_net (DomainChecker_init (lit ''key'') (lit ''secret''))
            (replicate 71 (lit ''abc'')) [lit ''.com''] = Inr s'
        \<and> posted_batches (trace s') = [replicate 70 (lit ''abc.com''), [lit ''abc.com'']])
   \<and> concat (map (batch_words (replicate 71 (lit ''abc'')))
               (batch_range 0 (length (replicate 71 (lit ''abc'')))))
     = replicate 71 (lit ''abc'')
   \<and> length (batch_words (replicate 71 (lit ''abc'')) 0) = 70
   \<and> length (batch_words (replicate 71 (lit ''abc'')) 70) = 1"
proof -
  let ?c = "DomainChecker_init (lit ''key'') (lit ''secret'')"
  let ?W = "replicate 71 (lit ''abc'')"
  let ?s0 = "\<lparr>available_domains = [(lit ''.com'', [])], trace = [], calls = 0\<rparr>"
  have wf: "\<forall>n req. well_formed (failing_net n req)"
    by (simp add: well_formed_failing_net)
  have "lit ''.com'' \<in> fst ` set (available_domains ?s0)"
    by simp
  from check_tld_returns [OF this wf, of ?c ?W] obtain s' where
    s': "check_tld failing_net ?c ?W (lit ''.com'') ?s0 = Inr s'"
    by blast
  from check_domains_returns [OF wf, of ?c ?W "[lit ''.com'']"] obtain s'' where
    s'': "check_domains failing_net ?c ?W [lit ''.com''] = Inr s''"
    by blast
  from batches_partition_words [of failing_net ?c ?W "lit ''.com''" ?s0 s' "[lit ''.com'']" s''] s' s''
  show ?thesis
    by (simp add: range_71 batch_words_def BATCH_SIZE_def abc_com)
qed

text \<open>
  C8. A run of the loop over the batches of one suffix that ends without an exception
  posts and sleeps in this order: for each start index of
  \<open>range(0, len(words), BATCH_SIZE)\<close> the request of that batch, followed by a sleep of
  \<open>DELAY_SECONDS\<close> if and only if the index is not the last one of the range. The same
  holds of one pass of the body: its events end with the sleep exactly when the batch
  is not the last one, and hold no other sleep. A run in which a batch raises has
  posted and slept in the same way up to the request of that batch, after which
  nothing is posted and no sleep follows.
\<close>

theorem check_tld_sleeps_unless_last:
  "(check_tld net checker words tld s = Inr s' \<longrightarrow>
      posts_and_sleeps (trace s') =
        posts_and_sleeps (trace s)
        @ concat (map (\<lambda>(n, i).
              Post n (request_for checker (map (\<lambda>word. word @ tld) (batch_words words i)))
              # (if i \<noteq> last (batch_range 0 (length words)) then [Sleep DELAY_SECONDS] else []))
            (enumerate (calls s) (batch_range 0 (length words)))))
   \<and> (i \<in> set (batch_range 0 (length words)) \<and> process_batch net checker words tld i s = Inr s1 \<longrightarrow>
      (\<exists>evs. trace s1 = trace s @ evs
                @ (if i \<noteq> last (batch_range 0 (length words)) then [Sleep DELAY_SECONDS] else [])
            \<and> (\<forall>ev \<in> set evs. \<forall>d. ev \<noteq> Sleep d)))
   \<and> (check_tld net checker words tld s = Inl (e, s2) \<longrightarrow>
      (\<exists>k < length (batch_range 0 (length words)).
         posts_and_sleeps (trace s2) =
           posts_and_sleeps (trace s)
           @ concat (map (\<lambda>(n, i).
                 Post n (request_for checker (map (\<lambda>word. word @ tld) (batch_words words i)))
                 # (if i \<noteq> last (batch_range 0 (length words)) then [Sleep DELAY_SECONDS] else []))
               (take k (enumerate (calls s) (batch_range 0 (length words)))))
           @ [Post (calls s + k)
                (request_for checker
                   (map (\<lambda>word. word @ tld) (batch_words words (batch_range 0 (length words) ! k))))]))"
proof (intro conjI impI)
  assume raised: "check_tld net checker words tld s = Inl (e, s2)"
  have same: "map (\<lambda>(n, i).
              Post n (request_for checker (map (\<lambda>word. word @ tld) (batch_words words i)))
              # (if i + BATCH_SIZE < length words then [Sleep DELAY_SECONDS] else []))
            (take k (enumerate (calls s) (batch_range 0 (length words))))
        = map (\<lambda>(n, i).
              Post n (request_for checker (map (\<lambda>word. word @ tld) (batch_words words i)))
              # (if i \<noteq> last (batch_range 0 (length words)) then [Sleep DELAY_SECONDS] else []))
            (take k (enumerate (calls s) (batch_range 0 (length words))))" for k
  proof (rule map_cong [OF refl])
    fix p
    assume p: "p \<in> set (take k (enumerate (calls s) (batch_range 0 (length words))))"
    obtain m j where ni: "p = (m, j)" by (cases p)
    with p have "(m, j) \<in> set (enumerate (calls s) (batch_range 0 (length words)))"
      by (auto dest: in_set_takeD)
    then have "j \<in> set (batch_range 0 (length words))"
      by (rule enumerate_snd)
    from last_batch [OF this] ni
    show "(case p of (n, i) \<Rightarrow>
              Post n (request_for checker (map (\<lambda>word. word @ tld) (batch_words words i)))
              # (if i + BATCH_SIZE < length words then [Sleep DELAY_SECONDS] else []))
        = (case p of (n, i) \<Rightarrow>
              Post n (request_for checker (map (\<lambda>word. word @ tld) (batch_words words i)))
              # (if i \<noteq> last (batch_range 0 (length words)) then [Sleep DELAY_SECONDS] else []))"
      by simp
  qed
  from batches_loop_raises [OF raised [unfolded check_tld_def]]
  show "\<exists>k < length (batch_range 0 (length words)).
         posts_and_sleeps (trace s2) =
           posts_and_sleeps (trace s)
           @ concat (map (\<lambda>(n, i).
                 Post n (request_for checker (map (\<lambda>word. word @ tld) (batch_words words i)))
                 # (if i \<noteq> last (batch_range 0 (length words)) then [Sleep DELAY_SECONDS] else []))
               (take k (enumerate (calls s) (batch_range 0 (length words)))))
           @ [Post (calls s + k)
                (request_for checker
                   (map (\<lambda>word. word @ tld) (batch_words words (batch_range 0 (length words) ! k))))]"
    by (simp add: posts_and_sleeps_append posts_and_sleeps_def same)
next
  assume run: "check_tld net checker words tld s = Inr s'"
  have same: "map (\<lambda>(n, i).
              Post n (request_for checker (map (\<lambda>word. word @ tld) (batch_words words i)))
              # (if i + BATCH_SIZE < length words then [Sleep DELAY_SECONDS] else []))
            (enumerate (calls s) (batch_range 0 (length words)))
        = map (\<lambda>(n, i).
              Post n (request_for checker (map (\<lambda>word. word @ tld) (batch_words words i)))
              # (if i \<noteq> last (batch_range 0 (length words)) then [Sleep DELAY_SECONDS] else []))
            (enumerate (calls s) (batch_range 0 (length words)))"
  proof (rule map_cong [OF refl])
    fix p
    assume p: "p \<in> set (enumerate (calls s) (batch_range 0 (length words)))"
    obtain m j where ni: "p = (m, j)" by (cases p)
    with p have "(m, j) \<in> set (enumerate (calls s) (batch_range 0 (length words)))"
      by simp
    then have "j \<in> set (batch_range 0 (length words))"
      by (rule enumerate_snd)
    from last_batch [OF this] ni
    show "(case p of (n, i) \<Rightarrow>
              Post n (request_for checker (map (\<lambda>word. word @ tld) (batch_words words i)))
              # (if i + BATCH_SIZE < length words then [Sleep DELAY_SECONDS] else []))
        = (case p of (n, i) \<Rightarrow>
              Post n (request_for checker (map (\<lambda>word. word @ tld) (batch_words words i)))
              # (if i \<noteq> last (batch_range 0 (length words)) then [Sleep DELAY_SECONDS] else []))"
      by simp
  qed
  from batches_loop_posts_and_sleeps [OF run [unfolded check_tld_def]]
  show "posts_and_sleeps (trace s') =
        posts_and_sleeps (trace s)
        @ concat (map (\<lambda>(n, i).
              Post n (request_for checker (map (\<lambda>word. word @ tld) (batch_words words i)))
              # (if i \<noteq> last (batch_range 0 (length words)) then [Sleep DELAY_SECONDS] else []))
            (enumerate (calls s) (batch_range 0 (length words))))"
    by (simp add: posts_and_sleeps_append posts_and_sleeps_def same)
next
  assume a: "i \<in> set (batch_range 0 (length words)) \<and> process_batch net checker words tld i s = Inr s1"
  from process_batch_shape [OF conjunct2 [OF a]] obtain evs where
    tr: "trace s1 = trace s
           @ (Post (calls s) (request_for checker (map (\<lambda>word. word @ tld) (batch_words words i))) # evs)
           @ (if i + BATCH_SIZE < length words then [Sleep DELAY_SECONDS] else [])"
    and logs: "\<forall>ev \<in> set evs. \<exists>l m. ev = Log l m"
    by auto
  from logs have "\<forall>ev \<in> set (Post (calls s) (request_for checker (map (\<lambda>word. word @ tld) (batch_words words i))) # evs).
      \<forall>d. ev \<noteq> Sleep d"
    by auto
  with tr last_batch [OF conjunct1 [OF a]]
  show "\<exists>evs. trace s1 = trace s @ evs
                @ (if i \<noteq> last (batch_range 0 (length words)) then [Sleep DELAY_SECONDS] else [])
            \<and> (\<forall>ev \<in> set evs. \<forall>d. ev \<noteq> Sleep d)"
    by (simp only: append_assoc) blast
qed

theorem check_tld_sleeps_unless_last_witness:
  "(\<exists>s'. check_tld failing_net (DomainChecker_init (lit ''key'') (lit ''secret''))
            (replicate 71 (lit ''abc'')) (lit ''.com'')
            \<lparr>available_domains = [(lit ''.com'', [])], trace = [], calls = 0\<rparr> = Inr s'
        \<and> posts_and_sleeps (trace s') =
            [Post 0 (request_for (DomainChecker_init (lit ''key'') (lit ''secret''))
                       (replicate 70 (lit ''abc.com''))),
             Sleep 4,
             Post 1 (request_for (DomainChecker_init (lit ''key'') (lit ''secret'')) [lit ''abc.com''])])
   \<and> (\<exists>s1 evs. process_batch failing_net (DomainChecker_init (lit ''key'') (lit ''secret''))
                 (replicate 71 (lit ''abc'')) (lit ''.com'') 0
                 \<lparr>available_domains = [(lit ''.com'', [])], trace = [], calls = 0\<rparr> = Inr s1
              \<and> trace s1 = evs @ [Sleep 4] \<and> Sleep 4 \<notin> set evs)
   \<and> (\<exists>s2. check_tld array_net (DomainChecker_init (lit ''key'') (lit ''secret''))
            (replicate 71 (lit ''abc'')) (lit ''.com'')
            \<lparr>available_domains = [(lit ''.com'', [])], trace = [], calls = 0\<rparr> = Inl (Uncaught, s2)
        \<and> posts_and_sleeps (trace s2) =
            [Post 0 (request_for (DomainChecker_init (lit ''key'') (lit ''secret''))
                       (replicate 70 (lit ''abc.com'')))])"
proof -
  let ?c = "DomainChecker_init (lit ''key'') (lit ''secret'')"
  let ?W = "replicate 71 (lit ''abc'')"
  let ?s0 = "\<lparr>available_domains = [(lit ''.com'', [])], trace = [], calls = 0\<rparr>"
  have wf: "\<forall>n req. well_formed (failing_net n req)"
    by (simp add: well_formed_failing_net)
  have key: "lit ''.com'' \<in> fst ` set (available_domains ?s0)"
    by simp
  from check_tld_returns [OF key wf, of ?c ?W] obtain s' where
    s': "check_tld failing_net ?c ?W (lit ''.com'') ?s0 = Inr s'"
    by blast
  from process_batch_returns [OF key, of failing_net ?c ?W 0] wf obtain s1 where
    s1: "process_batch failing_net ?c ?W (lit ''.com'') 0 ?s0 = Inr s1"
    by blast
  have b0: "map (\<lambda>word. word @ lit ''.com'') (batch_words ?W 0) = replicate 70 (lit ''abc.com'')"
    and b70: "map (\<lambda>word. word @ lit ''.com'') (batch_words ?W 70) = [lit ''abc.com'']"
    by (simp_all add: batch_words_def BATCH_SIZE_def abc_com)
  note inst = check_tld_sleeps_unless_last [of failing_net ?c ?W "lit ''.com''" ?s0 s' 0 s1]
  from inst s' have loop: "posts_and_sleeps (trace s') =
            [Post 0 (request_for ?c (replicate 70 (lit ''abc.com''))), Sleep 4,
             Post 1 (request_for ?c [lit ''abc.com''])]"
    by (simp add: range_71 b0 b70 posts_and_sleeps_Nil DELAY_SECONDS_def)
  from inst s1 have body: "\<exists>evs. trace s1 = evs @ [Sleep 4] \<and> Sleep 4 \<notin> set evs"
    by (simp add: range_71 DELAY_SECONDS_def) blast
  have raised: "check_tld array_net ?c ?W (lit ''.com'') ?s0 =
      Inl (Uncaught,
           \<lparr>available_domains = [(lit ''.com'', [])],
              trace = [Log INFO (CheckingTld (lit ''.com'')),
                       Post 0 (request_for ?c (replicate 70 (lit ''abc.com'')))],
              calls = 1\<rparr>)"
    by (simp add: check_tld_def range_71 process_batch_def check_batch_def array_net_def b0)
  from check_tld_sleeps_unless_last [of array_net ?c ?W "lit ''.com''" ?s0 _ _ _ Uncaught
         "\<lparr>available_domains = [(lit ''.com'', [])],
            trace = [Log INFO (CheckingTld (lit ''.com'')),
                     Post 0 (request_for ?c (replicate 70 (lit ''abc.com'')))],
            calls = 1\<rparr>"]
  have "posts_and_sleeps [Log INFO (CheckingTld (lit ''.com'')),
                          Post 0 (request_for ?c (replicate 70 (lit ''abc.com'')))]
          = [Post 0 (request_for ?c (replicate 70 (lit ''abc.com'')))]"
    by (simp add: posts_and_sleeps_def)
  with raised s' s1 loop body show ?thesis by auto
qed

text \<open>
  C7, as the code has it. \<open>check_batch\<close> posts one request. When the request raises a
  \<open>RequestException\<close> it logs the error and returns the empty list, and no second
  request is posted; the body of the loop then adds nothing to \<open>available_domains\<close>
  for that batch, raises nothing, and the loop goes on with the next batch. When the
  body of the answer is a dictionary it returns what the dictionary holds under
  \<open>domains\<close>, whatever that is, and the empty list without that key. When the body is
  any other JSON value the exception of \<open>.get\<close> leaves \<open>check_batch\<close>.
\<close>

theorem failed_batch_contributes_nothing:
  "(net n (request_for checker domains) = RequestException e \<longrightarrow>
      check_batch net checker n domains =
        ([Post n (request_for checker domains), Log ERROR (ApiRequestFailed e)], Inr (JArr [])))
   \<and> (net n (request_for checker domains) = Body body \<and> as_dict body = Some d \<longrightarrow>
      check_batch net checker n domains =
        ([Post n (request_for checker domains)],
         Inr (case map_of d (lit ''domains'') of None \<Rightarrow> JArr [] | Some v \<Rightarrow> v)))
   \<and> (net n (request_for checker domains) = Body body \<and> as_dict body = None \<longrightarrow>
      check_batch net checker n domains = ([Post n (request_for checker domains)], Inl Uncaught))
   \<and> (net (calls s) (request_for checker (map (\<lambda>word. word @ tld) (batch_words words i)))
         = RequestException e \<longrightarrow>
      process_batch net checker words tld i s =
        Inr (s\<lparr>trace := trace s
                  @ [Post (calls s) (request_for checker (map (\<lambda>word. word @ tld) (batch_words words i))),
                     Log ERROR (ApiRequestFailed e),
                     Log INFO (Progress (min (i + BATCH_SIZE) (length words)) (length words) tld)]
                  @ (if i + BATCH_SIZE < length words then [Sleep DELAY_SECONDS] else []),
                calls := Suc (calls s)\<rparr>)
      \<and> for_each (process_batch net checker words tld) (i # rest) s =
          for_each (process_batch net checker words tld) rest
            (s\<lparr>trace := trace s
                  @ [Post (calls s) (request_for checker (map (\<lambda>word. word @ tld) (batch_words words i))),
                     Log ERROR (ApiRequestFailed e),
                     Log INFO (Progress (min (i + BATCH_SIZE) (length words)) (length words) tld)]
                  @ (if i + BATCH_SIZE < length words then [Sleep DELAY_SECONDS] else []),
                calls := Suc (calls s)\<rparr>))"
proof -
  let ?batch = "map (\<lambda>word. word @ tld) (batch_words words i)"
  let ?s' = "s\<lparr>trace := trace s
                  @ [Post (calls s) (request_for checker ?batch),
                     Log ERROR (ApiRequestFailed e),
                     Log INFO (Progress (min (i + BATCH_SIZE) (length words)) (length words) tld)]
                  @ (if i + BATCH_SIZE < length words then [Sleep DELAY_SECONDS] else []),
                calls := Suc (calls s)\<rparr>"
  have client: "(net n (request_for checker domains) = RequestException e \<longrightarrow>
      check_batch net checker n domains =
        ([Post n (request_for checker domains), Log ERROR (ApiRequestFailed e)], Inr (JArr [])))
   \<and> (net n (request_for checker domains) = Body body \<and> as_dict body = Some d \<longrightarrow>
      check_batch net checker n domains =
        ([Post n (request_for checker domains)],
         Inr (case map_of d (lit ''domains'') of None \<Rightarrow> JArr [] | Some v \<Rightarrow> v)))
   \<and> (net n (request_for checker domains) = Body body \<and> as_dict body = None \<longrightarrow>
      check_batch net checker n domains = ([Post n (request_for checker domains)], Inl Uncaught))"
    by (simp add: check_batch_def)
  have step: "process_batch net checker words tld i s = Inr ?s'"
    if "net (calls s) (request_for checker ?batch) = RequestException e"
    using that by (simp add: check_batch_def process_batch_def Let_def)
  have "for_each (process_batch net checker words tld) (i # rest) s =
          for_each (process_batch net checker words tld) rest ?s'"
    if "net (calls s) (request_for checker ?batch) = RequestException e"
    by (simp only: for_each.simps step [OF that] sum.case)
  with client step show ?thesis by blast
qed

theorem failed_batch_contributes_nothing_witness:
  "check_batch failing_net (DomainChecker_init (lit ''key'') (lit ''secret'')) 0 [lit ''abc.com'']
     = ([Post 0 (request_for (DomainChecker_init (lit ''key'') (lit ''secret'')) [lit ''abc.com'']),
         Log ERROR (ApiRequestFailed (lit ''timed out''))], Inr (JArr []))
   \<and> check_batch simulated_net (DomainChecker_init (lit ''key'') (lit ''secret'')) 0 [lit ''abc.com'']
     = ([Post 0 (request_for (DomainChecker_init (lit ''key'') (lit ''secret'')) [lit ''abc.com''])],
        Inr (JArr [JObj [(lit ''domain'', JStr (lit ''abc.com'')), (lit ''available'', JBool True)]]))
   \<and> check_batch array_net (DomainChecker_init (lit ''key'') (lit ''secret'')) 0 [lit ''abc.com'']
     = ([Post 0 (request_for (DomainChecker_init (lit ''key'') (lit ''secret'')) [lit ''abc.com''])],
        Inl Uncaught)
   \<and> process_batch failing_net (DomainChecker_init (lit ''key'') (lit ''secret''))
        [lit ''abc''] (lit ''.com'') 0
        \<lparr>available_domains = [(lit ''.com'', [])], trace = [], calls = 0\<rparr>
     = Inr \<lparr>available_domains = [(lit ''.com'', [])],
            trace = [Post 0 (request_for (DomainChecker_init (lit ''key'') (lit ''secret'')) [lit ''abc.com'']),
                     Log ERROR (ApiRequestFailed (lit ''timed out'')),
                     Log INFO (Progress 1 1 (lit ''.com''))],
            calls = 1\<rparr>"
proof -
  let ?c = "DomainChecker_init (lit ''key'') (lit ''secret'')"
  let ?s0 = "\<lparr>available_domains = [(lit ''.com'', [])], trace = [], calls = 0\<rparr>"
  let ?d = "[(lit ''domains'',
              JArr [JObj [(lit ''domain'', JStr (lit ''abc.com'')), (lit ''available'', JBool True)]])]"
  have f: "failing_net n req = RequestException (lit ''timed out'')" for n req
    by (simp add: failing_net_def)
  have b: "simulated_net 0 (request_for ?c [lit ''abc.com'']) = Body (JObj ?d)"
    by (simp add: simulated_net_def request_for_def)
  have a: "array_net 0 (request_for ?c [lit ''abc.com'']) = Body (JArr [])"
    by (simp add: array_net_def)
  have w: "map (\<lambda>word. word @ lit ''.com'') (batch_words [lit ''abc''] 0) = [lit ''abc.com'']"
    by (simp add: batch_words_def BATCH_SIZE_def lit_def)
  from failed_batch_contributes_nothing [of failing_net 0 ?c "[lit ''abc.com'']" "lit ''timed out''" _ _ ?s0 "lit ''.com''" "[lit ''abc'']" 0]
       failed_batch_contributes_nothing [of simulated_net 0 ?c "[lit ''abc.com'']" _ "JObj ?d" ?d]
       failed_batch_contributes_nothing [of array_net 0 ?c "[lit ''abc.com'']" _ "JArr []"]
       f b a w
  show ?thesis
    by (simp add: BATCH_SIZE_def)
qed

text \<open>
  That \<open>check_batch\<close> always either returns a list of results or logs a failure and
  returns the empty list does not hold: answered with the JSON array \<open>[]\<close> it posts
  the request, logs nothing and returns nothing, since the \<open>AttributeError\<close> is not a
  \<open>RequestException\<close>; the loop ends there with that exception.
\<close>

theorem check_batch_raises_on_array_body:
  "check_batch array_net (DomainChecker_init (lit ''key'') (lit ''secret'')) 0 [lit ''abc.com'']
     = ([Post 0 (request_for (DomainChecker_init (lit ''key'') (lit ''secret'')) [lit ''abc.com''])],
        Inl Uncaught)
   \<and> check_domains array_net (DomainChecker_init (lit ''key'') (lit ''secret''))
        [lit ''abc''] [lit ''.com'']
     = Inl (Uncaught,
            \<lparr>available_domains = [(lit ''.com'', [])],
               trace = [Log INFO (CheckingTld (lit ''.com'')),
                        Post 0 (request_for (DomainChecker_init (lit ''key'') (lit ''secret''))
                                  [lit ''abc.com''])],
               calls = 1\<rparr>)"
proof -
  have w: "map (\<lambda>word. word @ lit ''.com'') (batch_words [lit ''abc''] 0) = [lit ''abc.com'']"
    by (simp add: batch_words_def BATCH_SIZE_def lit_def)
  have r: "batch_range 0 (Suc 0) = [0]"
    by (simp add: batch_range_Cons batch_range_Nil BATCH_SIZE_def)
  show ?thesis
    by (simp add: check_domains_def check_tld_def empty_lists_def r process_batch_def
        check_batch_def array_net_def w)
qed

text \<open>
  C1. When the loops over the suffixes and the batches end without an exception, the
  dictionary they have built has exactly the requested suffixes as its keys, each once,
  and every domain in the list of a suffix is the \<open>domain\<close> entry of a result that
  \<open>check_batch\<close> returned for a posted batch of words with that suffix, the
  \<open>available\<close> entry of that result being true (as Python reads a truth value; for the
  booleans of the API that is \<open>true\<close> itself). The loops do end so whenever every answer
  of the network is a failure or a dictionary whose \<open>domains\<close>, if there, is a list of
  dictionaries. With a network that reports \<open>abc.com\<close> as available and \<open>xyz.com\<close> as
  not, the words \<open>abc\<close> and \<open>xyz\<close> and the suffix \<open>.com\<close>, the entry of \<open>.com\<close> is
  exactly the list of \<open>abc.com\<close>, and that is what \<open>main\<close> writes to the output file.
\<close>

theorem check_domains_mapping:
  "(check_domains net checker words tlds = Inr s \<longrightarrow>
        set (map fst (available_domains s)) = set tlds
        \<and> distinct (map fst (available_domains s))
        \<and> (\<forall>tld ds d. (tld, ds) \<in> set (available_domains s) \<longrightarrow> d \<in> set ds \<longrightarrow>
              (\<exists>n batch results rs r. Post n (request_for checker batch) \<in> set (trace s)
                 \<and> set batch \<subseteq> (\<lambda>word. word @ tld) ` set words
                 \<and> snd (check_batch net checker n batch) = Inr results
                 \<and> iter results = Some rs \<and> JObj r \<in> set rs
                 \<and> truthy (get r (lit ''available'')) \<and> d = get r (lit ''domain''))))
   \<and> ((\<forall>n req. well_formed (net n req)) \<longrightarrow> (\<exists>s. check_domains net checker words tlds = Inr s))
   \<and> (\<exists>s. check_domains simulated_net checker [lit ''abc'', lit ''xyz''] [lit ''.com''] = Inr s
        \<and> available_domains s = [(lit ''.com'', [JStr (lit ''abc.com'')])])
   \<and> WriteJson OUTPUT_FILE [(lit ''.com'', [JStr (lit ''abc.com'')])] \<in> set (fst (main ascii_db abc_env))
   \<and> snd (main ascii_db abc_env) = Inr ()"
proof (intro conjI impI)
  assume run: "check_domains net checker words tlds = Inr s"
  from check_domains_inv [OF run] have
    keys: "map fst (available_domains s) = map fst (empty_lists tlds)"
    and snd: "sound net checker words s"
    unfolding loop_inv_def by simp_all
  from keys empty_lists_keys [of tlds]
  show "set (map fst (available_domains s)) = set tlds"
    and "distinct (map fst (available_domains s))"
    by simp_all
  from snd show "\<forall>tld ds d. (tld, ds) \<in> set (available_domains s) \<longrightarrow> d \<in> set ds \<longrightarrow>
              (\<exists>n batch results rs r. Post n (request_for checker batch) \<in> set (trace s)
                 \<and> set batch \<subseteq> (\<lambda>word. word @ tld) ` set words
                 \<and> snd (check_batch net checker n batch) = Inr results
                 \<and> iter results = Some rs \<and> JObj r \<in> set rs
                 \<and> truthy (get r (lit ''available'')) \<and> d = get r (lit ''domain''))"
    unfolding sound_def reported_def .
next
  assume "\<forall>n req. well_formed (net n req)"
  then show "\<exists>s. check_domains net checker words tlds = Inr s"
    by (rule check_domains_returns)
next
  show "\<exists>s. check_domains simulated_net checker [lit ''abc'', lit ''xyz''] [lit ''.com''] = Inr s
        \<and> available_domains s = [(lit ''.com'', [JStr (lit ''abc.com'')])]"
    by (simp add: example_run)
next
  show "WriteJson OUTPUT_FILE [(lit ''.com'', [JStr (lit ''abc.com'')])] \<in> set (fst (main ascii_db abc_env))"
    by (simp add: main_example)
next
  show "snd (main ascii_db abc_env) = Inr ()"
    by (simp add: main_example)
qed

theorem check_domains_mapping_witness:
  "\<exists>s. check_domains simulated_net (DomainChecker_init (lit ''key'') (lit ''secret''))
          [lit ''abc'', lit ''xyz''] [lit ''.com''] = Inr s
      \<and> available_domains s = [(lit ''.com'', [JStr (lit ''abc.com'')])]
      \<and> set (map fst (available_domains s)) = {lit ''.com''}
      \<and> (\<exists>n batch results rs r.
             Post n (request_for (DomainChecker_init (lit ''key'') (lit ''secret'')) batch) \<in> set (trace s)
             \<and> snd (check_batch simulated_net (DomainChecker_init (lit ''key'') (lit ''secret'')) n batch)
                 = Inr results
             \<and> iter results = Some rs \<and> JObj r \<in> set rs
             \<and> truthy (get r (lit ''available'')) \<and> JStr (lit ''abc.com'') = get r (lit ''domain''))"
proof -
  let ?c = "DomainChecker_init (lit ''key'') (lit ''secret'')"
  note inst = check_domains_mapping [of simulated_net ?c "[lit ''abc'', lit ''xyz'']" "[lit ''.com'']"]
  have wf: "\<forall>n req. well_formed (simulated_net n req)"
    by (simp add: well_formed_simulated_net)
  from inst wf obtain s where s: "check_domains simulated_net ?c [lit ''abc'', lit ''xyz''] [lit ''.com''] = Inr s"
    by blast
  from inst s have av: "available_domains s = [(lit ''.com'', [JStr (lit ''abc.com'')])]"
    by auto
  from check_domains_mapping [of simulated_net ?c "[lit ''abc'', lit ''xyz'']" "[lit ''.com'']" s] s
  have keys: "set (map fst (available_domains s)) = set [lit ''.com'']"
    and only: "\<forall>tld ds d. (tld, ds) \<in> set (available_domains s) \<longrightarrow> d \<in> set ds \<longrightarrow>
              (\<exists>n batch results rs r. Post n (request_for ?c batch) \<in> set (trace s)
                 \<and> set batch \<subseteq> (\<lambda>word. word @ tld) ` set [lit ''abc'', lit ''xyz'']
                 \<and> snd (check_batch simulated_net ?c n batch) = Inr results
                 \<and> iter results = Some rs \<and> JObj r \<in> set rs
                 \<and> truthy (get r (lit ''available'')) \<and> d = get r (lit ''domain''))"
    by blast+
  from av have "(lit ''.com'', [JStr (lit ''abc.com'')]) \<in> set (available_domains s)"
    and "JStr (lit ''abc.com'') \<in> set [JStr (lit ''abc.com'')]"
    by simp_all
  with only have "\<exists>n batch results rs r. Post n (request_for ?c batch) \<in> set (trace s)
             \<and> snd (check_batch simulated_net ?c n batch) = Inr results
             \<and> iter results = Some rs \<and> JObj r \<in> set rs
             \<and> truthy (get r (lit ''available'')) \<and> JStr (lit ''abc.com'') = get r (lit ''domain'')"
    by blast
  with s av keys show ?thesis by auto
qed

end
